theory Spec2Isabelle
  imports Main
begin

section \<open>JavaScript values used by the pipeline\<close>

text \<open>
  Strings are lists of ASCII characters. The string primitives below are the ECMAScript
  ones restricted to that range: \<open>toLowerCase\<close> maps A-Z to a-z, \<open>trim\<close> and the
  regular-expression class \<open>\s\<close> know space, tab, line feed, vertical tab, form feed and
  carriage return, \<open>\d\<close> is 0-9 and \<open>\w\<close> is letters, digits and underscore.
\<close>

definition isDigit :: "char \<Rightarrow> bool" where
  "isDigit c = (c \<in> set ''0123456789'')"

definition isSpace :: "char \<Rightarrow> bool" where
  "isSpace c = (c \<in> {CHR '' '', CHR 0x09, CHR 0x0A, CHR 0x0B, CHR 0x0C, CHR 0x0D})"

definition isWord :: "char \<Rightarrow> bool" where
  "isWord c = (c \<in> set ''abcdefghijklmnopqrstuvwxyzABCDEFGHIJKLMNOPQRSTUVWXYZ0123456789_'')"

definition lower_char :: "char \<Rightarrow> char" where
  "lower_char c =
     (case map_of (zip ''ABCDEFGHIJKLMNOPQRSTUVWXYZ'' ''abcdefghijklmnopqrstuvwxyz'') c of
        Some d \<Rightarrow> d
      | None \<Rightarrow> c)"

definition toLowerCase :: "string \<Rightarrow> string" where
  "toLowerCase s = map lower_char s"

definition trim :: "string \<Rightarrow> string" where
  "trim s = rev (dropWhile isSpace (rev (dropWhile isSpace s)))"

fun starts_with :: "string \<Rightarrow> string \<Rightarrow> bool" where
  "starts_with s [] = True"
| "starts_with [] (p # ps) = False"
| "starts_with (c # cs) (p # ps) = (c = p \<and> starts_with cs ps)"

text \<open>\<open>String.prototype.includes\<close>: the needle occurs at some position.\<close>

fun str_includes :: "string \<Rightarrow> string \<Rightarrow> bool" where
  "str_includes [] p = (p = [])"
| "str_includes (c # cs) p = (starts_with (c # cs) p \<or> str_includes cs p)"

text \<open>Decimal digits of a natural number, as \<open>String(n)\<close> prints an integer.\<close>

definition digit_char :: "nat \<Rightarrow> char" where
  "digit_char d = ''0123456789'' ! d"

function show_nat :: "nat \<Rightarrow> string" where
  "show_nat n = (if n < 10 then [digit_char n] else show_nat (n div 10) @ [digit_char (n mod 10)])"
  by pat_completeness auto
termination
  by (relation "measure id") auto

declare show_nat.simps [simp del]

definition show_int :: "int \<Rightarrow> string" where
  "show_int i = (if i < 0 then CHR ''-'' # show_nat (nat (- i)) else show_nat (nat i))"

text \<open>The value of a run of decimal digits, as \<open>Number("007")\<close> reads it.\<close>

definition digit_value :: "char \<Rightarrow> nat" where
  "digit_value c = (case map_of (zip ''0123456789'' [0, 1, 2, 3, 4, 5, 6, 7, 8, 9]) c of Some d \<Rightarrow> d | None \<Rightarrow> 0)"

definition digits_value :: "string \<Rightarrow> nat" where
  "digits_value ds = foldl (\<lambda>acc c. 10 * acc + digit_value c) 0 ds"

text \<open>
  A number as the payload can carry it in a quantity field: JSON numbers in an order are
  integers; \<open>NaN\<close> and the infinities are what \<open>Number.isFinite\<close> rejects.
  Fractions and floating-point rounding are outside the model.
\<close>

datatype jsnum = Fin int | NaN | PosInfinity | NegInfinity

text \<open>An identifier field: a JSON number or a JSON string.\<close>

datatype jsscalar = SNum int | SStr string

definition String_of :: "jsscalar \<Rightarrow> string" where
  "String_of v = (case v of SNum n \<Rightarrow> show_int n | SStr s \<Rightarrow> s)"

definition truthy :: "jsscalar option \<Rightarrow> bool" where
  "truthy v = (case v of None \<Rightarrow> False | Some (SNum n) \<Rightarrow> n \<noteq> 0 | Some (SStr s) \<Rightarrow> s \<noteq> [])"

text \<open>
  A thrown value, as \<open>isDuplicateKeyError\<close> looks at it: its \<open>code\<close>, the message fields
  it may carry (absent or null is \<open>None\<close>) and what \<open>String(err)\<close> gives.
\<close>

record js_error =
  err_code :: "int option"
  err_message :: "string option"
  err_data_message :: "string option"
  err_data_errors0_message :: "string option"
  err_errors0_message :: "string option"
  err_string :: string

definition Error :: "string \<Rightarrow> js_error" where
  "Error msg = \<lparr> err_code = None, err_message = Some msg, err_data_message = None,
     err_data_errors0_message = None, err_errors0_message = None,
     err_string = ''Error: '' @ msg \<rparr>"

section \<open>The order payload\<close>

record property =
  prop_name :: "string option"
  prop_value :: "string option"

record line_item =
  item_id :: "jsscalar option"
  admin_graphql_api_id :: "jsscalar option"
  variant_title :: "string option"
  item_name :: "string option"
  quantity :: "jsnum option"
  current_quantity :: "jsnum option"
  properties :: "property list option"

record shopify_body =
  order_number :: "jsscalar option"
  order_name :: "jsscalar option"
  email :: "string option"
  customer_email :: "string option"
  line_items :: "line_item list option"

section \<open>getPackSize\<close>

text \<open>
  The pattern \<^verbatim>\<open>/(?:^|[^\d])(\d+)\s*plaque(?:s)?\b/i\<close>, matched the way a backtracking
  matcher runs it: every greedy quantifier tries its longest choice first and falls back
  to shorter ones. The letters before the final \<^verbatim>\<open>\b\<close> are word characters, so the
  boundary holds exactly when no word character follows.
\<close>

definition at_word_end :: "string \<Rightarrow> bool" where
  "at_word_end r = (case r of [] \<Rightarrow> True | c # _ \<Rightarrow> \<not> isWord c)"

definition match_plaque :: "string \<Rightarrow> bool" where
  "match_plaque r =
     (toLowerCase (take 6 r) = ''plaque'' \<and>
      (let r1 = drop 6 r in
         (case r1 of c # r2 \<Rightarrow> lower_char c = CHR ''s'' \<and> at_word_end r2 | [] \<Rightarrow> False)
         \<or> at_word_end r1))"

fun match_ws_plaque :: "string \<Rightarrow> bool" where
  "match_ws_plaque [] = match_plaque []"
| "match_ws_plaque (c # cs) = ((isSpace c \<and> match_ws_plaque cs) \<or> match_plaque (c # cs))"

fun match_digits :: "string \<Rightarrow> string \<Rightarrow> string option" where
  "match_digits acc [] = (if acc \<noteq> [] \<and> match_ws_plaque [] then Some acc else None)"
| "match_digits acc (c # cs) =
     (case (if isDigit c then match_digits (acc @ [c]) cs else None) of
        Some m \<Rightarrow> Some m
      | None \<Rightarrow> if acc \<noteq> [] \<and> match_ws_plaque (c # cs) then Some acc else None)"

definition match_at :: "bool \<Rightarrow> string \<Rightarrow> string option" where
  "match_at at_start s =
     (case (if at_start then match_digits [] s else None) of
        Some m \<Rightarrow> Some m
      | None \<Rightarrow> (case s of [] \<Rightarrow> None
                 | c # cs \<Rightarrow> if \<not> isDigit c then match_digits [] cs else None))"

text \<open>\<open>String.prototype.match\<close> without the g flag: the leftmost position that matches;
  the result is capture group 1.\<close>

fun regex_search :: "bool \<Rightarrow> string \<Rightarrow> string option" where
  "regex_search at_start [] = match_at at_start []"
| "regex_search at_start (c # cs) =
     (case match_at at_start (c # cs) of
        Some m \<Rightarrow> Some m
      | None \<Rightarrow> regex_search False cs)"

definition hay :: "line_item \<Rightarrow> string" where
  "hay item =
     toLowerCase (case variant_title item of None \<Rightarrow> [] | Some s \<Rightarrow> s) @ '' '' @
     toLowerCase (case item_name item of None \<Rightarrow> [] | Some s \<Rightarrow> s)"

text \<open>
  \<open>Number(m[1])\<close> of a digit run is its value; a run too long for a finite double is
  not 1, 2 or 5 either, so the \<open>Number.isFinite\<close> test changes no result.
\<close>

definition getPackSize :: "line_item \<Rightarrow> int option" where
  "getPackSize item =
     (case regex_search True (hay item) of
        None \<Rightarrow> None
      | Some m \<Rightarrow>
          (let n = int (digits_value m)
           in if n = 1 \<or> n = 2 \<or> n = 5 then Some n else None))"

section \<open>extractGroups\<close>

record group =
  reviewUrl :: string
  units :: int
  lineItemId :: string

definition has_value :: "property option \<Rightarrow> string option" where
  "has_value p =
     (case p of None \<Rightarrow> None
      | Some q \<Rightarrow> (case prop_value q of None \<Rightarrow> None
                   | Some v \<Rightarrow> if v = [] then None else Some v))"

definition name_or_empty :: "property \<Rightarrow> string" where
  "name_or_empty p = (case prop_name p of None \<Rightarrow> [] | Some n \<Rightarrow> n)"

definition findReviewUrlInProperties :: "property list \<Rightarrow> string option" where
  "findReviewUrlInProperties props =
     (let exact = find (\<lambda>p. toLowerCase (trim (name_or_empty p)) = ''google_business_url'') props
      in case has_value exact of
           Some v \<Rightarrow> Some (trim v)
         | None \<Rightarrow>
            (let loose = find (\<lambda>p. str_includes (toLowerCase (name_or_empty p)) ''google'') props
             in case has_value loose of
                  Some v \<Rightarrow> Some (trim v)
                | None \<Rightarrow> None))"

text \<open>\<open>Number(item?.quantity ?? item?.current_quantity ?? 1)\<close>: the first field that is
  neither absent nor null.\<close>

definition quantityRaw :: "line_item \<Rightarrow> jsnum" where
  "quantityRaw item =
     (case quantity item of
        Some q \<Rightarrow> q
      | None \<Rightarrow> (case current_quantity item of Some q \<Rightarrow> q | None \<Rightarrow> Fin 1))"

definition item_quantity :: "line_item \<Rightarrow> int" where
  "item_quantity item = (case quantityRaw item of Fin q \<Rightarrow> if q > 0 then q else 1 | _ \<Rightarrow> 1)"

text \<open>One pass of the loop body: \<open>Inl\<close> is the throw, \<open>Inr None\<close> a \<open>continue\<close>,
  \<open>Inr (Some g)\<close> the pushed group.\<close>

definition extract_item :: "line_item \<Rightarrow> js_error + group option" where
  "extract_item item =
     (let url = (case properties item of None \<Rightarrow> None | Some ps \<Rightarrow> findReviewUrlInProperties ps)
      in case url of
           None \<Rightarrow> Inr None
         | Some u \<Rightarrow>
             if u = [] then Inr None
             else
               (let q = item_quantity item
                in case getPackSize item of
                     None \<Rightarrow> Inl (Error ''NO PACK SIZE'')
                   | Some packSize \<Rightarrow>
                       if \<not> truthy (item_id item) \<and> \<not> truthy (admin_graphql_api_id item)
                       then Inr None
                       else
                         (let lid = String_of (case item_id item of
                                                 Some i \<Rightarrow> i
                                               | None \<Rightarrow>
                                                  (case admin_graphql_api_id item of
                                                     Some a \<Rightarrow> a
                                                   | None \<Rightarrow> SStr ''undefined''))
                          in Inr (Some \<lparr> reviewUrl = u, units = q * packSize, lineItemId = lid \<rparr>))))"

fun extract_loop :: "line_item list \<Rightarrow> group list \<Rightarrow> js_error + group list" where
  "extract_loop [] groups = Inr groups"
| "extract_loop (item # items) groups =
     (case extract_item item of
        Inl e \<Rightarrow> Inl e
      | Inr None \<Rightarrow> extract_loop items groups
      | Inr (Some g) \<Rightarrow> extract_loop items (groups @ [g]))"

definition extractGroups :: "shopify_body \<Rightarrow> js_error + group list" where
  "extractGroups body =
     extract_loop (case line_items body of None \<Rightarrow> [] | Some xs \<Rightarrow> xs) []"

section \<open>isDuplicateKeyError\<close>

text \<open>The \<open>??\<close> chain: the first message field that is neither absent nor null, else
  the error itself; then \<open>String(...)\<close>.\<close>

definition error_text :: "js_error \<Rightarrow> string" where
  "error_text err =
     (case err_message err of Some m \<Rightarrow> m | None \<Rightarrow>
     (case err_data_message err of Some m \<Rightarrow> m | None \<Rightarrow>
     (case err_data_errors0_message err of Some m \<Rightarrow> m | None \<Rightarrow>
     (case err_errors0_message err of Some m \<Rightarrow> m | None \<Rightarrow> err_string err))))"

definition isDuplicateKeyError :: "js_error \<Rightarrow> bool" where
  "isDuplicateKeyError err =
     (let s = toLowerCase (error_text err)
      in err_code err = Some 11000 \<or>
         str_includes s ''e11000'' \<or>
         str_includes s ''duplicate'' \<or>
         str_includes s ''unique'' \<or>
         str_includes s ''already exists'' \<or>
         str_includes s ''has already been taken'')"

section \<open>The request, the configuration and the platform\<close>

text \<open>
  \<open>platform\<close> holds what the handler reads from outside the repository: the process
  environment, the HMAC-SHA256 digest in base64 (\<open>crypto\<close>), \<open>JSON.parse\<close> on the raw
  body (\<open>None\<close> when it throws), \<open>normalizeGoogleReviewLinkStrict\<close> (imported by the
  handler, its file is not part of the extract) and the clock.
\<close>

record request =
  headers :: "string \<Rightarrow> string option"
  rawBody :: string

record platform =
  SHOPIFY_WEBHOOK_VERIFY_SIGNATURE :: "string option"
  SHOPIFY_WEBHOOK_SECRET :: "string option"
  PLATES_NOTIFICATION_EMAIL :: "string option"
  PUBLIC_APP_URL :: "string option"
  hmac_sha256_base64 :: "string \<Rightarrow> string \<Rightarrow> string"
  JSON_parse :: "string \<Rightarrow> shopify_body option"
  normalizeGoogleReviewLinkStrict :: "string \<Rightarrow> string option"
  now_iso :: string

text \<open>\<open>a || b\<close> on header values: null, undefined and the empty string fall through.
  The headers are one lookup function, whether the runtime exposes them through
  \<open>get\<close> or as properties: the key is tried as given, then lower-cased.\<close>

definition nonempty :: "string option \<Rightarrow> string option" where
  "nonempty v = (case v of None \<Rightarrow> None | Some s \<Rightarrow> if s = [] then None else Some s)"

definition getShopifyHeader :: "request \<Rightarrow> string \<Rightarrow> string option" where
  "getShopifyHeader req key =
     (case nonempty (headers req key) of
        Some v \<Rightarrow> Some v
      | None \<Rightarrow> nonempty (headers req (toLowerCase key)))"

definition checkShopifySignature :: "platform \<Rightarrow> string \<Rightarrow> string option \<Rightarrow> js_error + bool" where
  "checkShopifySignature pf raw hmacHeader =
     (case nonempty hmacHeader of
        None \<Rightarrow> Inr False
      | Some h \<Rightarrow>
          (case nonempty (SHOPIFY_WEBHOOK_SECRET pf) of
             None \<Rightarrow> Inl (Error ''SHOPIFY_WEBHOOK_SECRET missing'')
           | Some secret \<Rightarrow>
               (let digest = hmac_sha256_base64 pf secret raw
                in if length digest \<noteq> length h then Inr False else Inr (digest = h))))"

section \<open>The storage\<close>

datatype event_status = received | processed | failed

record webhook_event =
  ev_id :: nat
  ev_provider :: string
  ev_webhookId :: string
  ev_topic :: string
  ev_orderNumber :: "string option"
  ev_status :: event_status
  ev_error :: "string option"

text \<open>The fields the \<open>webhook-events\<close> collection declares.\<close>

definition WebhookEvents_fields :: "string list" where
  "WebhookEvents_fields = [''provider'', ''webhookId'', ''topic'', ''orderNumber'', ''status'', ''error'']"

text \<open>The \<open>data\<close> object \<open>markEvent\<close> is called with.\<close>

record event_data =
  d_status :: "event_status option"
  d_orderNumber :: "string option"
  d_error :: "string option"
  d_createdPlatesCount :: "nat option"

definition data_keys :: "event_data \<Rightarrow> string list" where
  "data_keys d =
     (if d_status d = None then [] else [''status'']) @
     (if d_orderNumber d = None then [] else [''orderNumber'']) @
     (if d_error d = None then [] else [''error'']) @
     (if d_createdPlatesCount d = None then [] else [''createdPlatesCount''])"

record order =
  ord_id :: nat
  orderNumber :: string
  customerEmail :: string
  ord_status :: string
  ord_plates :: "nat list"
  activated :: bool

record plate =
  pl_id :: nat
  slug :: string
  pl_order :: nat
  googleReviewUrl :: string
  pl_status :: string
  sourceKey :: string
  activatedAt :: string

record created_plate =
  cp_slug :: string
  cp_reviewUrl :: string
  cp_publicUrl :: string

record email_msg =
  mail_to :: string
  mail_subject :: string
  mail_plates :: "created_plate list"

text \<open>
  The world a handler execution runs in: the three collections, the id counter, and what
  the execution meets on its way: \<open>faults\<close> gives, for each successive call to the
  storage or the mailer, the failure it raises other than a uniqueness violation
  (\<open>None\<close>, or an exhausted list: the call goes through); \<open>slugs\<close> gives the successive
  results of \<open>crypto.randomBytes(6).toString('hex')\<close>; \<open>unique_error\<close> is what the
  storage raises when a unique index rejects a write. \<open>event_writes\<close> keeps the data of
  every update the storage accepted on \<open>webhook-events\<close>, \<open>emails\<close> the mails sent.
\<close>

record world =
  events :: "webhook_event list"
  orders :: "order list"
  plates :: "plate list"
  next_id :: nat
  faults :: "js_error option list"
  slugs :: "string list"
  unique_error :: js_error
  event_writes :: "(nat \<times> event_data) list"
  emails :: "email_msg list"

definition take_fault :: "world \<Rightarrow> js_error option \<times> world" where
  "take_fault w = (case faults w of [] \<Rightarrow> (None, w) | f # fs \<Rightarrow> (f, w\<lparr> faults := fs \<rparr>))"

definition draw_slug :: "world \<Rightarrow> string \<times> world" where
  "draw_slug w = (case slugs w of [] \<Rightarrow> (''000000000000'', w) | s # ss \<Rightarrow> (s, w\<lparr> slugs := ss \<rparr>))"

text \<open>Ids are allocated from 1, so an id is never falsy.\<close>

definition create_event :: "string \<Rightarrow> string \<Rightarrow> world \<Rightarrow> (js_error + nat) \<times> world" where
  "create_event wid topic w =
     (case take_fault w of
        (Some e, w1) \<Rightarrow> (Inl e, w1)
      | (None, w1) \<Rightarrow>
          if wid \<in> set (map ev_webhookId (events w1)) then (Inl (unique_error w1), w1)
          else (Inr (Suc (next_id w1)),
                w1\<lparr> events := events w1 @
                       [\<lparr> ev_id = Suc (next_id w1), ev_provider = ''shopify'', ev_webhookId = wid,
                          ev_topic = topic, ev_orderNumber = None, ev_status = received,
                          ev_error = None \<rparr>],
                     next_id := Suc (next_id w1) \<rparr>))"

text \<open>An update keeps the fields the collection declares: \<open>createdPlatesCount\<close> is none
  of them.\<close>

definition apply_event_data :: "event_data \<Rightarrow> webhook_event \<Rightarrow> webhook_event" where
  "apply_event_data d ev =
     ev\<lparr> ev_status := (case d_status d of Some s \<Rightarrow> s | None \<Rightarrow> ev_status ev),
         ev_orderNumber := (case d_orderNumber d of Some n \<Rightarrow> Some n | None \<Rightarrow> ev_orderNumber ev),
         ev_error := (case d_error d of Some e \<Rightarrow> Some e | None \<Rightarrow> ev_error ev) \<rparr>"

text \<open>\<open>markEvent\<close>: nothing without an event id; a failing update is logged and dropped.\<close>

definition markEvent :: "nat option \<Rightarrow> event_data \<Rightarrow> world \<Rightarrow> world" where
  "markEvent eventId d w =
     (case eventId of
        None \<Rightarrow> w
      | Some i \<Rightarrow>
          (case take_fault w of
             (Some e, w1) \<Rightarrow> w1
           | (None, w1) \<Rightarrow>
               w1\<lparr> events := map (\<lambda>ev. if ev_id ev = i then apply_event_data d ev else ev) (events w1),
                   event_writes := event_writes w1 @ [(i, d)] \<rparr>))"

definition find_orders :: "string \<Rightarrow> world \<Rightarrow> (js_error + order list) \<times> world" where
  "find_orders number w =
     (case take_fault w of
        (Some e, w1) \<Rightarrow> (Inl e, w1)
      | (None, w1) \<Rightarrow> (Inr (take 1 (filter (\<lambda>ord. orderNumber ord = number) (orders w1))), w1))"

definition update_order :: "nat \<Rightarrow> (order \<Rightarrow> order) \<Rightarrow> world \<Rightarrow> (js_error + nat) \<times> world" where
  "update_order oid change w =
     (case take_fault w of
        (Some e, w1) \<Rightarrow> (Inl e, w1)
      | (None, w1) \<Rightarrow>
          (Inr oid, w1\<lparr> orders := map (\<lambda>ord. if ord_id ord = oid then change ord else ord) (orders w1) \<rparr>))"

definition create_order :: "string \<Rightarrow> string \<Rightarrow> world \<Rightarrow> (js_error + nat) \<times> world" where
  "create_order number mail w =
     (case take_fault w of
        (Some e, w1) \<Rightarrow> (Inl e, w1)
      | (None, w1) \<Rightarrow>
          if number \<in> set (map orderNumber (orders w1)) then (Inl (unique_error w1), w1)
          else (Inr (Suc (next_id w1)),
                w1\<lparr> orders := orders w1 @
                       [\<lparr> ord_id = Suc (next_id w1), orderNumber = number, customerEmail = mail,
                          ord_status = ''paid'', ord_plates = [], activated = False \<rparr>],
                     next_id := Suc (next_id w1) \<rparr>))"

definition find_plates :: "nat \<Rightarrow> world \<Rightarrow> (js_error + plate list) \<times> world" where
  "find_plates oid w =
     (case take_fault w of
        (Some e, w1) \<Rightarrow> (Inl e, w1)
      | (None, w1) \<Rightarrow> (Inr (take 500 (filter (\<lambda>p. pl_order p = oid) (plates w1))), w1))"

definition create_plate :: "string \<Rightarrow> nat \<Rightarrow> string \<Rightarrow> string \<Rightarrow> string \<Rightarrow> world \<Rightarrow> (js_error + nat) \<times> world" where
  "create_plate sl oid key url at w =
     (case take_fault w of
        (Some e, w1) \<Rightarrow> (Inl e, w1)
      | (None, w1) \<Rightarrow>
          if sl \<in> set (map slug (plates w1)) \<or> key \<in> set (map sourceKey (plates w1))
          then (Inl (unique_error w1), w1)
          else (Inr (Suc (next_id w1)),
                w1\<lparr> plates := plates w1 @
                       [\<lparr> pl_id = Suc (next_id w1), slug = sl, pl_order = oid, googleReviewUrl = url,
                          pl_status = ''activated'', sourceKey = key, activatedAt = at \<rparr>],
                     next_id := Suc (next_id w1) \<rparr>))"

definition sendEmail :: "email_msg \<Rightarrow> world \<Rightarrow> world" where
  "sendEmail m w =
     (case take_fault w of
        (Some e, w1) \<Rightarrow> w1
      | (None, w1) \<Rightarrow> w1\<lparr> emails := emails w1 @ [m] \<rparr>)"

section \<open>The orders/paid handler\<close>

datatype outcome = Response nat | Uncaught js_error

text \<open>A step of the handler body: it goes on with a value, returns a response, or throws.\<close>

datatype 'a flow = Next 'a | Return nat | Throw js_error

text \<open>Section 1: \<open>Inl\<close> is the status of the rejection, \<open>Inr\<close> the delivery id of a
  request that passed.\<close>

definition gates :: "platform \<Rightarrow> request \<Rightarrow> nat + string" where
  "gates pf req =
     (let topic = getShopifyHeader req ''x-shopify-topic'';
          webhookId = getShopifyHeader req ''x-shopify-webhook-id'';
          hmac = getShopifyHeader req ''x-shopify-hmac-sha256''
      in if topic \<noteq> Some ''orders/paid'' then Inl 401
         else
           (case webhookId of
              None \<Rightarrow> Inl 401
            | Some wid \<Rightarrow>
                if SHOPIFY_WEBHOOK_VERIFY_SIGNATURE pf \<noteq> Some ''false''
                then (case checkShopifySignature pf (rawBody req) hmac of
                        Inl e \<Rightarrow> Inl 500
                      | Inr ok \<Rightarrow> if ok then Inr wid else Inl 401)
                else Inr wid))"

definition failed_data :: "string option \<Rightarrow> string \<Rightarrow> event_data" where
  "failed_data number msg =
     \<lparr> d_status = Some failed, d_orderNumber = number, d_error = Some msg,
       d_createdPlatesCount = None \<rparr>"

definition sourceKey_of :: "string \<Rightarrow> string \<Rightarrow> nat \<Rightarrow> string" where
  "sourceKey_of number lid i = number @ ''|'' @ lid @ ''|'' @ show_nat i"

text \<open>The inner loop, over the unit indices still to visit. \<open>ex\<close> is
  \<open>existingSourceKeys\<close>, \<open>cr\<close> is \<open>createdPlates\<close>.\<close>

fun unit_loop ::
  "platform \<Rightarrow> string \<Rightarrow> nat \<Rightarrow> string \<Rightarrow> string \<Rightarrow> nat list \<Rightarrow> string set \<Rightarrow> created_plate list
    \<Rightarrow> world \<Rightarrow> (js_error + string set \<times> created_plate list) \<times> world" where
  "unit_loop pf number oid lid url [] ex cr w = (Inr (ex, cr), w)"
| "unit_loop pf number oid lid url (i # rest) ex cr w =
     (let key = sourceKey_of number lid i
      in if key \<in> ex then unit_loop pf number oid lid url rest ex cr w
         else
           (case draw_slug w of
              (sl, w1) \<Rightarrow>
                (case create_plate sl oid key url (now_iso pf) w1 of
                   (Inr new_id, w2) \<Rightarrow>
                     unit_loop pf number oid lid url rest (insert key ex)
                       (cr @ [\<lparr> cp_slug = sl, cp_reviewUrl = url, cp_publicUrl = ''/p/'' @ sl \<rparr>]) w2
                 | (Inl err, w2) \<Rightarrow>
                     if \<not> isDuplicateKeyError err then (Inl err, w2)
                     else unit_loop pf number oid lid url rest ex cr w2)))"

text \<open>The outer loop, over the groups.\<close>

fun group_loop ::
  "platform \<Rightarrow> nat option \<Rightarrow> string \<Rightarrow> nat \<Rightarrow> group list \<Rightarrow> string set \<Rightarrow> created_plate list
    \<Rightarrow> world \<Rightarrow> (string set \<times> created_plate list) flow \<times> world" where
  "group_loop pf eventId number oid [] ex cr w = (Next (ex, cr), w)"
| "group_loop pf eventId number oid (g # gs) ex cr w =
     (if lineItemId g = []
      then (Return 200,
            markEvent eventId (failed_data (Some number) ''Missing lineItemId (idempotence impossible)'') w)
      else
        (case nonempty (normalizeGoogleReviewLinkStrict pf (reviewUrl g)) of
           None \<Rightarrow>
             (Return 200,
              markEvent eventId
                (failed_data (Some number) (''Invalid Google review URL: '' @ reviewUrl g)) w)
         | Some url \<Rightarrow>
             (case unit_loop pf number oid (lineItemId g) url [0 ..< nat (units g)] ex cr w of
                (Inl err, w1) \<Rightarrow> (Throw err, w1)
              | (Inr (ex1, cr1), w1) \<Rightarrow> group_loop pf eventId number oid gs ex1 cr1 w1)))"

text \<open>Section 6 of the handler: the snapshot of the order's source keys, then the loops.\<close>

definition generate_plates ::
  "platform \<Rightarrow> nat option \<Rightarrow> string \<Rightarrow> nat \<Rightarrow> group list \<Rightarrow> world
    \<Rightarrow> (created_plate list) flow \<times> world" where
  "generate_plates pf eventId number oid groups w =
     (case find_plates oid w of
        (Inl e, w1) \<Rightarrow> (Throw e, w1)
      | (Inr docs, w1) \<Rightarrow>
          (case group_loop pf eventId number oid groups
                  (set (filter (\<lambda>k. k \<noteq> []) (map sourceKey docs))) [] w1 of
             (Next (ex, cr), w2) \<Rightarrow> (Next cr, w2)
           | (Return st, w2) \<Rightarrow> (Return st, w2)
           | (Throw e, w2) \<Rightarrow> (Throw e, w2)))"

text \<open>Section 5: lookup, then update or create.\<close>

definition upsert_order :: "string \<Rightarrow> string \<Rightarrow> world \<Rightarrow> (js_error + nat) \<times> world" where
  "upsert_order number mail w =
     (case find_orders number w of
        (Inl e, w1) \<Rightarrow> (Inl e, w1)
      | (Inr [], w1) \<Rightarrow> create_order number mail w1
      | (Inr (ord # _), w1) \<Rightarrow>
          update_order (ord_id ord) (\<lambda>x. x\<lparr> customerEmail := mail, ord_status := ''paid'' \<rparr>) w1)"

text \<open>Section 8. The HTML body that \<open>buildEmailHtml\<close> renders is not modelled: a mail is
  its recipient, its subject (its dash written as a hyphen) and the plates it lists.\<close>

definition notify :: "platform \<Rightarrow> string \<Rightarrow> created_plate list \<Rightarrow> world \<Rightarrow> world" where
  "notify pf number cr w =
     (case nonempty (PLATES_NOTIFICATION_EMAIL pf) of
        None \<Rightarrow> w
      | Some notifyTo \<Rightarrow>
          if length cr > 0
          then sendEmail \<lparr> mail_to = notifyTo,
                          mail_subject = ''Nouvelles plaques NFC - Commande '' @ number,
                          mail_plates = cr \<rparr> w
          else w)"

definition processed_data :: "string \<Rightarrow> nat \<Rightarrow> event_data" where
  "processed_data number n =
     \<lparr> d_status = Some processed, d_orderNumber = Some number, d_error = None,
       d_createdPlatesCount = Some n \<rparr>"

text \<open>Section 7, then 8 and 9.\<close>

definition finalize ::
  "platform \<Rightarrow> nat option \<Rightarrow> string \<Rightarrow> nat \<Rightarrow> created_plate list \<Rightarrow> world \<Rightarrow> outcome \<times> world" where
  "finalize pf eventId number oid cr w =
     (case find_plates oid w of
        (Inl e, w1) \<Rightarrow> (Uncaught e, w1)
      | (Inr finalPlates, w1) \<Rightarrow>
          (case update_order oid (\<lambda>x. x\<lparr> activated := True, ord_plates := map pl_id finalPlates \<rparr>) w1 of
             (Inl e, w2) \<Rightarrow> (Uncaught e, w2)
           | (Inr _, w2) \<Rightarrow>
               (Response 200,
                notify pf number cr (markEvent eventId (processed_data number (length cr)) w2))))"

text \<open>Sections 5 to 9.\<close>

definition fulfil ::
  "platform \<Rightarrow> nat option \<Rightarrow> string \<Rightarrow> string \<Rightarrow> group list \<Rightarrow> world \<Rightarrow> outcome \<times> world" where
  "fulfil pf eventId number mail groups w =
     (case upsert_order number mail w of
        (Inl e, w1) \<Rightarrow> (Uncaught e, w1)
      | (Inr oid, w1) \<Rightarrow>
          (case generate_plates pf eventId number oid groups w1 of
             (Throw e, w2) \<Rightarrow> (Uncaught e, w2)
           | (Return st, w2) \<Rightarrow> (Response st, w2)
           | (Next cr, w2) \<Rightarrow> finalize pf eventId number oid cr w2))"

definition body_orderNumber :: "shopify_body \<Rightarrow> string" where
  "body_orderNumber body =
     (case order_number body of
        Some v \<Rightarrow> String_of v
      | None \<Rightarrow> (case order_name body of Some v \<Rightarrow> String_of v | None \<Rightarrow> []))"

definition body_customerEmail :: "shopify_body \<Rightarrow> string" where
  "body_customerEmail body =
     (case email body of
        Some v \<Rightarrow> v
      | None \<Rightarrow> (case customer_email body of Some v \<Rightarrow> v | None \<Rightarrow> []))"

text \<open>Sections 3 and 4, for a registered delivery. The handler calls the extraction
  outside any \<open>try\<close>: what it throws leaves the handler.\<close>

definition process_event :: "platform \<Rightarrow> request \<Rightarrow> nat option \<Rightarrow> world \<Rightarrow> outcome \<times> world" where
  "process_event pf req eventId w =
     (case JSON_parse pf (rawBody req) of
        None \<Rightarrow> (Response 200, markEvent eventId (failed_data None ''Invalid JSON body'') w)
      | Some body \<Rightarrow>
          (let number = body_orderNumber body; mail = body_customerEmail body
           in if number = [] \<or> mail = []
              then (Response 200,
                    markEvent eventId (failed_data None ''Missing orderNumber or customerEmail'') w)
              else
                (case extractGroups body of
                   Inl e \<Rightarrow> (Uncaught e, w)
                 | Inr groups \<Rightarrow>
                     if groups = []
                     then (Response 200,
                           markEvent eventId
                             (failed_data (Some number) ''No Google URL found in line_items'') w)
                     else if list_ex (\<lambda>g. units g = 0 \<or> units g \<le> 0) groups
                     then (Response 200,
                           markEvent eventId
                             (failed_data (Some number)
                                ''Unable to infer pack size from variant_title/name (expected 1/2/5 Plaques).'') w)
                     else fulfil pf eventId number mail groups w)))"

text \<open>Sections 1 and 2, then the rest.\<close>

definition handler :: "platform \<Rightarrow> request \<Rightarrow> world \<Rightarrow> outcome \<times> world" where
  "handler pf req w =
     (case gates pf req of
        Inl st \<Rightarrow> (Response st, w)
      | Inr webhookId \<Rightarrow>
          (case create_event webhookId ''orders/paid'' w of
             (Inl err, w1) \<Rightarrow> (Response (if isDuplicateKeyError err then 200 else 500), w1)
           | (Inr new_id, w1) \<Rightarrow> process_event pf req (Some new_id) w1))"

section \<open>What the specification says, as predicates\<close>

text \<open>
  The label carries the pattern "<integer> <unit-word>" with the digit run \<open>ds\<close>: a
  maximal-to-the-left run of digits, optional white space, the unit word in the singular
  or the plural (in any letter case), and no word character after it.
\<close>

definition count_pattern :: "string \<Rightarrow> string \<Rightarrow> bool" where
  "count_pattern label ds =
     (\<exists>pre ws unit rest.
        label = pre @ ds @ ws @ unit @ rest \<and>
        ds \<noteq> [] \<and> list_all isDigit ds \<and>
        (pre = [] \<or> \<not> isDigit (last pre)) \<and>
        list_all isSpace ws \<and>
        (toLowerCase unit = ''plaque'' \<or> toLowerCase unit = ''plaques'') \<and>
        at_word_end rest)"


text \<open>A line entry is relevant when a destination value is found among its properties.\<close>

definition relevant :: "line_item \<Rightarrow> bool" where
  "relevant item =
     (case properties item of
        None \<Rightarrow> False
      | Some ps \<Rightarrow> (case findReviewUrlInProperties ps of None \<Rightarrow> False | Some u \<Rightarrow> u \<noteq> []))"

text \<open>The source keys of a group, one per unit index below \<open>units\<close>, and of a
  list of groups.\<close>

definition group_keys :: "string \<Rightarrow> group \<Rightarrow> string list" where
  "group_keys number g = map (sourceKey_of number (lineItemId g)) [0 ..< nat (units g)]"

definition all_keys :: "string \<Rightarrow> group list \<Rightarrow> string list" where
  "all_keys number gs = concat (map (group_keys number) gs)"

definition stored_keys :: "world \<Rightarrow> string set" where
  "stored_keys w = set (map sourceKey (plates w))"

text \<open>
  An execution that meets no failure of the storage and draws fresh random slugs: no
  fault is scheduled, and the next \<open>n\<close> slugs exist, differ from each other and from
  every slug stored.
\<close>

definition fresh_run :: "world \<Rightarrow> nat \<Rightarrow> bool" where
  "fresh_run w n =
     (faults w = [] \<and> distinct (slugs w) \<and> set (slugs w) \<inter> set (map slug (plates w)) = {} \<and>
      n \<le> length (slugs w))"

text \<open>A text contains a substring.\<close>

definition contains_substring :: "string \<Rightarrow> string \<Rightarrow> bool" where
  "contains_substring s needle = (\<exists>pre post. s = pre @ needle @ post)"

text \<open>The next call to the storage meets no failure of its own.\<close>

definition no_fault_next :: "world \<Rightarrow> bool" where
  "no_fault_next w = (case faults w of [] \<Rightarrow> True | f # _ \<Rightarrow> f = None)"

text \<open>Every failure scheduled, and the storage's uniqueness error, is one
  \<open>isDuplicateKeyError\<close> classifies as a uniqueness violation.\<close>

definition all_classified :: "world \<Rightarrow> bool" where
  "all_classified w =
     (list_all (\<lambda>f. case f of None \<Rightarrow> True | Some e \<Rightarrow> isDuplicateKeyError e) (faults w) \<and>
      isDuplicateKeyError (unique_error w))"

text \<open>The delivery ids registered, and two worlds that agree on them and on the
  storage's uniqueness error.\<close>

definition delivery_ids :: "world \<Rightarrow> string list" where
  "delivery_ids w = map ev_webhookId (events w)"

definition same_deliveries :: "world \<Rightarrow> world \<Rightarrow> bool" where
  "same_deliveries w w' = (delivery_ids w' = delivery_ids w \<and> unique_error w' = unique_error w)"

section \<open>The end-to-end scenario of the specification\<close>

text \<open>
  An event for order "1001" with one line item: the destination property
  \<open>google_business_url\<close>, quantity 2, variant label "2 Plaques" and the stable line id
  "li_77". What the scenario leaves open is filled in: a customer e-mail (the handler
  requires one), the delivery id, a storage that starts empty and meets no fault, and
  distinct random slugs. The signature check is switched off by the configuration; the
  URL validator is a parameter.
\<close>

definition example_item :: line_item where
  "example_item =
     \<lparr> item_id = Some (SStr ''li_77''), admin_graphql_api_id = None,
       variant_title = Some ''2 Plaques'', item_name = None,
       quantity = Some (Fin 2), current_quantity = None,
       properties = Some [\<lparr> prop_name = Some ''google_business_url'',
                            prop_value = Some ''https://g.page/r/ABC123/review'' \<rparr>] \<rparr>"

definition example_body :: "line_item \<Rightarrow> shopify_body" where
  "example_body item =
     \<lparr> order_number = Some (SStr ''1001''), order_name = None,
       email = Some ''client@example.com'', customer_email = None,
       line_items = Some [item] \<rparr>"

definition example_platform :: "line_item \<Rightarrow> (string \<Rightarrow> string option) \<Rightarrow> platform" where
  "example_platform item validate =
     \<lparr> SHOPIFY_WEBHOOK_VERIFY_SIGNATURE = Some ''false'', SHOPIFY_WEBHOOK_SECRET = None,
       PLATES_NOTIFICATION_EMAIL = None, PUBLIC_APP_URL = None,
       hmac_sha256_base64 = (\<lambda>secret raw. []),
       JSON_parse = (\<lambda>raw. Some (example_body item)),
       normalizeGoogleReviewLinkStrict = validate,
       now_iso = ''2026-01-01T00:00:00.000Z'' \<rparr>"

definition example_request :: request where
  "example_request =
     \<lparr> headers = [''x-shopify-topic'' \<mapsto> ''orders/paid'', ''x-shopify-webhook-id'' \<mapsto> ''wh_1''],
       rawBody = ''{...}'' \<rparr>"

definition mongo_duplicate :: js_error where
  "mongo_duplicate =
     \<lparr> err_code = Some 11000, err_message = Some ''E11000 duplicate key error collection'',
       err_data_message = None, err_data_errors0_message = None, err_errors0_message = None,
       err_string = ''MongoServerError: E11000 duplicate key error collection'' \<rparr>"

text \<open>The error Payload raises when a unique index rejects a write: a
  \<open>ValidationError\<close> whose \<open>message\<close> names the field, with "Value must be unique" at
  \<open>data.errors[0].message\<close>.\<close>

definition payload_unique_error :: js_error where
  "payload_unique_error =
     \<lparr> err_code = None, err_message = Some ''The following field is invalid: webhookId'',
       err_data_message = None, err_data_errors0_message = Some ''Value must be unique'',
       err_errors0_message = None,
       err_string = ''ValidationError: The following field is invalid: webhookId'' \<rparr>"

definition example_world :: world where
  "example_world =
     \<lparr> events = [], orders = [], plates = [], next_id = 0, faults = [],
       slugs = [''0a0000000001'', ''0a0000000002'', ''0a0000000003'', ''0a0000000004'',
                ''0a0000000005'', ''0a0000000006''],
       unique_error = mongo_duplicate, event_writes = [], emails = [] \<rparr>"

section \<open>Pack resolution\<close>

lemma match_plaque_sound:
  assumes "match_plaque r"
  shows "\<exists>unit rest. r = unit @ rest \<and>
           (toLowerCase unit = ''plaque'' \<or> toLowerCase unit = ''plaques'') \<and> at_word_end rest"
proof -
  from assms have six: "toLowerCase (take 6 r) = ''plaque''"
    by (simp add: match_plaque_def)
  from assms consider
      (plural) c r2 where "drop 6 r = c # r2" "lower_char c = CHR ''s''" "at_word_end r2"
    | (singular) "at_word_end (drop 6 r)"
    by (auto simp: match_plaque_def Let_def split: list.splits)
  then show ?thesis
  proof cases
    case plural
    have "r = (take 6 r @ [c]) @ r2"
      using plural(1) by (metis append_Cons append_Nil append_assoc append_take_drop_id)
    moreover have "toLowerCase (take 6 r @ [c]) = ''plaques''"
      using six plural(2) by (simp add: toLowerCase_def)
    ultimately show ?thesis using plural(3) by blast
  next
    case singular
    have "r = take 6 r @ drop 6 r" by simp
    then show ?thesis using six singular by blast
  qed
qed

lemma match_ws_plaque_sound:
  "match_ws_plaque r \<Longrightarrow> \<exists>ws r'. r = ws @ r' \<and> list_all isSpace ws \<and> match_plaque r'"
proof (induction r)
  case Nil
  then show ?case by auto
next
  case (Cons c cs)
  show ?case
  proof (cases "match_plaque (c # cs)")
    case True
    then have "c # cs = [] @ (c # cs) \<and> list_all isSpace [] \<and> match_plaque (c # cs)" by simp
    then show ?thesis by blast
  next
    case False
    with Cons.prems have sp: "isSpace c" and "match_ws_plaque cs" by auto
    with Cons.IH obtain ws r' where "cs = ws @ r'" "list_all isSpace ws" "match_plaque r'" by blast
    then have "c # cs = (c # ws) @ r' \<and> list_all isSpace (c # ws) \<and> match_plaque r'"
      using sp by simp
    then show ?thesis by blast
  qed
qed

lemma match_digits_sound:
  "match_digits acc s = Some m \<Longrightarrow>
     \<exists>ds r. s = ds @ r \<and> list_all isDigit ds \<and> m = acc @ ds \<and> m \<noteq> [] \<and> match_ws_plaque r"
proof (induction s arbitrary: acc)
  case Nil
  then show ?case by (auto split: if_splits)
next
  case (Cons c cs)
  show ?case
  proof (cases "isDigit c \<and> match_digits (acc @ [c]) cs \<noteq> None")
    case True
    with Cons.prems have m': "match_digits (acc @ [c]) cs = Some m" by auto
    from Cons.IH[OF m'] obtain ds r where
      "cs = ds @ r" "list_all isDigit ds" "m = (acc @ [c]) @ ds" "m \<noteq> []" "match_ws_plaque r"
      by blast
    then have "c # cs = (c # ds) @ r \<and> list_all isDigit (c # ds) \<and> m = acc @ (c # ds) \<and> m \<noteq> [] \<and> match_ws_plaque r"
      using True by simp
    then show ?thesis by blast
  next
    case False
    then have "(if isDigit c then match_digits (acc @ [c]) cs else None) = None" by auto
    with Cons.prems have "acc \<noteq> []" "match_ws_plaque (c # cs)" "m = acc"
      by (auto split: if_splits)
    then have "c # cs = [] @ (c # cs) \<and> list_all isDigit [] \<and> m = acc @ [] \<and> m \<noteq> [] \<and> match_ws_plaque (c # cs)"
      by simp
    then show ?thesis by blast
  qed
qed

lemma match_at_sound:
  assumes "match_at b s = Some m"
  shows "\<exists>p r. s = p @ m @ r \<and> (p = [] \<longrightarrow> b) \<and> (p = [] \<or> \<not> isDigit (last p)) \<and>
           list_all isDigit m \<and> m \<noteq> [] \<and> match_ws_plaque r"
proof -
  from assms consider
      (first) "b" "match_digits [] s = Some m"
    | (second) c cs where "s = c # cs" "\<not> isDigit c" "match_digits [] cs = Some m"
    by (auto simp: match_at_def split: if_splits option.splits list.splits)
  then show ?thesis
  proof cases
    case first
    from match_digits_sound[OF first(2)] obtain r where
      "s = m @ r" "list_all isDigit m" "m \<noteq> []" "match_ws_plaque r" by auto
    then have "s = [] @ m @ r \<and> ([] = [] \<longrightarrow> b) \<and> ([] = [] \<or> \<not> isDigit (last [])) \<and>
        list_all isDigit m \<and> m \<noteq> [] \<and> match_ws_plaque r"
      using first(1) by simp
    then show ?thesis by blast
  next
    case second
    from match_digits_sound[OF second(3)] obtain r where
      "cs = m @ r" "list_all isDigit m" "m \<noteq> []" "match_ws_plaque r" by auto
    then have "s = [c] @ m @ r \<and> ([c] = [] \<longrightarrow> b) \<and> ([c] = [] \<or> \<not> isDigit (last [c])) \<and>
        list_all isDigit m \<and> m \<noteq> [] \<and> match_ws_plaque r"
      using second by simp
    then show ?thesis by blast
  qed
qed

lemma regex_search_sound:
  "regex_search b s = Some m \<Longrightarrow>
     \<exists>p r. s = p @ m @ r \<and> (p = [] \<longrightarrow> b) \<and> (p = [] \<or> \<not> isDigit (last p)) \<and>
       list_all isDigit m \<and> m \<noteq> [] \<and> match_ws_plaque r"
proof (induction s arbitrary: b)
  case Nil
  then have "match_at b [] = Some m" by simp
  then show ?case by (rule match_at_sound)
next
  case (Cons c cs)
  show ?case
  proof (cases "match_at b (c # cs)")
    case (Some m')
    with Cons.prems have "match_at b (c # cs) = Some m" by simp
    then show ?thesis by (rule match_at_sound)
  next
    case None
    with Cons.prems have "regex_search False cs = Some m" by simp
    from Cons.IH[OF this] obtain p r where
      h: "cs = p @ m @ r" "p \<noteq> []" "\<not> isDigit (last p)" "list_all isDigit m" "m \<noteq> []"
         "match_ws_plaque r"
      by blast
    then have "c # cs = (c # p) @ m @ r \<and> (c # p = [] \<longrightarrow> b) \<and>
        (c # p = [] \<or> \<not> isDigit (last (c # p))) \<and> list_all isDigit m \<and> m \<noteq> [] \<and> match_ws_plaque r"
      by simp
    then show ?thesis by blast
  qed
qed

lemma regex_search_pattern:
  assumes "regex_search b s = Some m"
  shows "count_pattern s m"
proof -
  from regex_search_sound[OF assms] obtain p r where
    h: "s = p @ m @ r" "p = [] \<or> \<not> isDigit (last p)" "list_all isDigit m" "m \<noteq> []" "match_ws_plaque r"
    by blast
  from match_ws_plaque_sound[OF h(5)] obtain ws r' where
    w: "r = ws @ r'" "list_all isSpace ws" "match_plaque r'" by blast
  from match_plaque_sound[OF w(3)] obtain unit rest where
    u: "r' = unit @ rest" "toLowerCase unit = ''plaque'' \<or> toLowerCase unit = ''plaques''"
       "at_word_end rest" by blast
  have "s = p @ m @ ws @ unit @ rest" using h(1) w(1) u(1) by simp
  then show ?thesis
    unfolding count_pattern_def using h(2,3,4) w(2) u(2,3) by blast
qed

lemma getPackSize_Some:
  assumes "getPackSize item = Some n"
  shows "n \<in> {1, 2, 5} \<and> (\<exists>ds. count_pattern (hay item) ds \<and> int (digits_value ds) = n)"
proof -
  from assms obtain m where m: "regex_search True (hay item) = Some m"
    and n: "n = int (digits_value m)" "n = 1 \<or> n = 2 \<or> n = 5"
    by (auto simp: getPackSize_def Let_def split: option.splits if_splits)
  from regex_search_pattern[OF m] n show ?thesis by auto
qed


lemma match_plaque_complete:
  assumes "toLowerCase unit = ''plaque'' \<or> toLowerCase unit = ''plaques''" "at_word_end rest"
  shows "match_plaque (unit @ rest)"
proof -
  from assms(1) consider (singular) "toLowerCase unit = ''plaque''"
    | (plural) "toLowerCase unit = ''plaques''" by blast
  then show ?thesis
  proof cases
    case singular
    then have "length (toLowerCase unit) = 6" by simp
    then have "length unit = 6" by (simp add: toLowerCase_def)
    then show ?thesis using singular assms(2) by (simp add: match_plaque_def)
  next
    case plural
    then obtain u6 c where uc: "unit = u6 @ [c]" "toLowerCase u6 = ''plaque''" "lower_char c = CHR ''s''"
      by (auto simp: toLowerCase_def map_eq_Cons_conv)
    then have "length (toLowerCase u6) = 6" by simp
    then have "length u6 = 6" by (simp add: toLowerCase_def)
    then show ?thesis using uc assms(2) by (simp add: match_plaque_def)
  qed
qed

lemma match_ws_plaque_complete:
  "list_all isSpace ws \<Longrightarrow> match_plaque r \<Longrightarrow> match_ws_plaque (ws @ r)"
proof (induction ws)
  case Nil
  then show ?case by (cases r) auto
next
  case (Cons c ws)
  then show ?case by simp
qed

lemma match_digits_complete:
  "list_all isDigit ds \<Longrightarrow> acc @ ds \<noteq> [] \<Longrightarrow> match_ws_plaque r \<Longrightarrow> match_digits acc (ds @ r) \<noteq> None"
proof (induction ds arbitrary: acc)
  case Nil
  then show ?case by (cases r) (auto split: option.splits)
next
  case (Cons d ds)
  from Cons.prems have "match_digits (acc @ [d]) (ds @ r) \<noteq> None"
    by (intro Cons.IH) auto
  with Cons.prems show ?case by (auto split: option.splits)
qed

lemma match_at_found: "match_at b s \<noteq> None \<Longrightarrow> regex_search b s \<noteq> None"
  by (cases s) (auto split: option.splits)

lemma regex_search_complete:
  assumes "list_all isDigit ds" "ds \<noteq> []" "match_ws_plaque r"
  shows "(pre = [] \<longrightarrow> b) \<Longrightarrow> (pre = [] \<or> \<not> isDigit (last pre)) \<Longrightarrow>
           regex_search b (pre @ ds @ r) \<noteq> None"
proof (induction pre arbitrary: b)
  case Nil
  have "match_digits [] (ds @ r) \<noteq> None"
    using assms by (intro match_digits_complete) auto
  with Nil have "match_at b (ds @ r) \<noteq> None"
    by (auto simp: match_at_def split: option.splits)
  then show ?case using match_at_found by simp
next
  case (Cons c pre)
  show ?case
  proof (cases "pre = []")
    case True
    with Cons.prems have nd: "\<not> isDigit c" by simp
    have "match_digits [] (ds @ r) \<noteq> None"
      using assms by (intro match_digits_complete) auto
    with nd have "match_at b (c # ds @ r) \<noteq> None"
      by (auto simp: match_at_def split: option.splits)
    then show ?thesis using match_at_found True by fastforce
  next
    case False
    with Cons.prems have "regex_search False (pre @ ds @ r) \<noteq> None"
      by (intro Cons.IH) auto
    then show ?thesis by (auto split: option.splits)
  qed
qed

lemma count_pattern_found:
  assumes "count_pattern s ds"
  shows "regex_search True s \<noteq> None"
proof -
  from assms obtain pre ws unit rest where
    h: "s = pre @ ds @ ws @ unit @ rest" "ds \<noteq> []" "list_all isDigit ds"
       "pre = [] \<or> \<not> isDigit (last pre)" "list_all isSpace ws"
       "toLowerCase unit = ''plaque'' \<or> toLowerCase unit = ''plaques''" "at_word_end rest"
    unfolding count_pattern_def by blast
  have "match_ws_plaque (ws @ unit @ rest)"
    using h(5,6,7) by (intro match_ws_plaque_complete match_plaque_complete)
  from regex_search_complete[OF h(3) h(2) this, of pre True] h(4) show ?thesis
    using h(1) by simp
qed


text \<open>The examples, evaluated.\<close>

lemma lower_blanc5: "toLowerCase ''blanc / 5 Plaques'' = ''blanc / 5 plaques''"
  by code_simp
lemma search_blanc5: "regex_search True ''blanc / 5 plaques '' = Some ''5''"
  by code_simp
lemma search_no_count: "regex_search True ''blanc plaque nfc'' = None"
  by code_simp
lemma search_10: "regex_search True ''10 plaques '' = Some ''10''"
  by code_simp
lemma search_noir2: "regex_search True ''noir / 2 plaques plaque nfc'' = Some ''2''"
  by code_simp
lemma lower_strs:
  "toLowerCase ''blanc'' = ''blanc''" "toLowerCase ''Plaque NFC'' = ''plaque nfc''"
  "toLowerCase ''10 Plaques'' = ''10 plaques''" "toLowerCase ''noir / 2 plaques'' = ''noir / 2 plaques''"
  "toLowerCase [] = []"
  by code_simp+
lemma digit_runs: "digits_value ''5'' = 5" "digits_value ''10'' = 10" "digits_value ''2'' = 2"
  by code_simp+
text \<open>
  C6. Pack resolution: the resolver returns a pack size only when the label (the
  lower-cased variant title, a space, the lower-cased name) carries the pattern
  "<integer> <unit-word>" and the integer it parsed is 1, 2 or 5; when the label has no
  such pattern, or only ones whose integer is outside 1, 2, 5, the result is unresolved;
  the search finds a match exactly when the label has the pattern.
  "blanc / 5 Plaques" resolves to 5, a label without a count and "10 Plaques" are
  unresolved.
\<close>

theorem getPackSize_allow_list:
  "(getPackSize item = Some n \<longrightarrow>
      n \<in> {1, 2, 5} \<and> (\<exists>ds. count_pattern (hay item) ds \<and> int (digits_value ds) = n)) \<and>
   ((\<forall>ds. count_pattern (hay item) ds \<longrightarrow> int (digits_value ds) \<notin> {1, 2, 5}) \<longrightarrow>
      getPackSize item = None) \<and>
   ((\<exists>ds. count_pattern (hay item) ds) \<longleftrightarrow> regex_search True (hay item) \<noteq> None) \<and>
   getPackSize (item\<lparr> variant_title := Some ''blanc / 5 Plaques'', item_name := None \<rparr>) = Some 5 \<and>
   getPackSize (item\<lparr> variant_title := Some ''blanc'', item_name := Some ''Plaque NFC'' \<rparr>) = None \<and>
   getPackSize (item\<lparr> variant_title := Some ''10 Plaques'', item_name := None \<rparr>) = None"
proof (intro conjI impI)
  assume "getPackSize item = Some n"
  then show "n \<in> {1, 2, 5}" using getPackSize_Some by blast
next
  assume "getPackSize item = Some n"
  then show "\<exists>ds. count_pattern (hay item) ds \<and> int (digits_value ds) = n"
    using getPackSize_Some by blast
next
  assume none: "\<forall>ds. count_pattern (hay item) ds \<longrightarrow> int (digits_value ds) \<notin> {1, 2, 5}"
  show "getPackSize item = None"
  proof (cases "getPackSize item")
    case (Some k)
    from getPackSize_Some[OF this] none show ?thesis by blast
  qed simp
next
  show "(\<exists>ds. count_pattern (hay item) ds) \<longleftrightarrow> regex_search True (hay item) \<noteq> None"
    using count_pattern_found regex_search_pattern by blast
next
  show "getPackSize (item\<lparr> variant_title := Some ''blanc / 5 Plaques'', item_name := None \<rparr>) = Some 5"
    by (simp add: getPackSize_def hay_def lower_blanc5 lower_strs search_blanc5 digit_runs del: regex_search.simps)
next
  show "getPackSize (item\<lparr> variant_title := Some ''blanc'', item_name := Some ''Plaque NFC'' \<rparr>) = None"
    by (simp add: getPackSize_def hay_def lower_strs search_no_count del: regex_search.simps)
next
  show "getPackSize (item\<lparr> variant_title := Some ''10 Plaques'', item_name := None \<rparr>) = None"
    by (simp add: getPackSize_def hay_def lower_strs search_10 digit_runs del: regex_search.simps)
qed

theorem getPackSize_allow_list_witness:
  "getPackSize \<lparr> item_id = Some (SStr ''li_77''), admin_graphql_api_id = None,
       variant_title = Some ''noir / 2 plaques'', item_name = Some ''Plaque NFC'',
       quantity = Some (Fin 1), current_quantity = None, properties = None \<rparr> = Some 2 \<and>
   (\<exists>ds. count_pattern (hay \<lparr> item_id = Some (SStr ''li_77''), admin_graphql_api_id = None,
       variant_title = Some ''noir / 2 plaques'', item_name = Some ''Plaque NFC'',
       quantity = Some (Fin 1), current_quantity = None, properties = None \<rparr>) ds \<and>
     int (digits_value ds) = 2)"
proof -
  let ?item = "\<lparr> item_id = Some (SStr ''li_77''), admin_graphql_api_id = None,
       variant_title = Some ''noir / 2 plaques'', item_name = Some ''Plaque NFC'',
       quantity = Some (Fin 1), current_quantity = None, properties = None \<rparr>"
  have run: "getPackSize ?item = Some 2"
    by (simp add: getPackSize_def hay_def lower_strs search_noir2 digit_runs del: regex_search.simps)
  from getPackSize_allow_list[of ?item 2] run show ?thesis by blast
qed

section \<open>Plate generation\<close>

lemma take_fault_none: "faults w = [] \<Longrightarrow> take_fault w = (None, w)"
  by (simp add: take_fault_def)

lemma take_fault_plates: "take_fault w = (f, w') \<Longrightarrow> plates w' = plates w"
  by (auto simp: take_fault_def split: list.splits)

lemma create_plate_cases:
  assumes "create_plate sl oid key url at w = (r, w')"
  shows "(\<exists>e. r = Inl e \<and> plates w' = plates w \<and> slugs w' = slugs w) \<or>
         (\<exists>i. r = Inr i \<and> key \<notin> stored_keys w \<and> sl \<notin> set (map slug (plates w)) \<and> slugs w' = slugs w \<and>
            plates w' = plates w @ [\<lparr> pl_id = i, slug = sl, pl_order = oid, googleReviewUrl = url,
                          pl_status = ''activated'', sourceKey = key, activatedAt = at \<rparr>])"
  using assms
  by (auto simp: create_plate_def take_fault_def stored_keys_def split: list.splits option.splits if_splits)

lemma create_plate_present:
  assumes "key \<in> stored_keys w" "create_plate sl oid key url at w = (r, w')"
  shows "plates w' = plates w \<and> (\<exists>e. r = Inl e)"
  using create_plate_cases[OF assms(2)] assms(1) by auto

lemma draw_slug_plates: "draw_slug w = (sl, w') \<Longrightarrow> plates w' = plates w"
  by (auto simp: draw_slug_def split: list.splits)

text \<open>A run over keys that are all stored leaves the plates as they are.\<close>

lemma unit_loop_present:
  "\<forall>i \<in> set idxs. sourceKey_of number lid i \<in> stored_keys w \<Longrightarrow>
     plates (snd (unit_loop pf number oid lid url idxs ex cr w)) = plates w"
proof (induction idxs arbitrary: ex cr w)
  case Nil
  then show ?case by simp
next
  case (Cons i rest)
  let ?key = "sourceKey_of number lid i"
  show ?case
  proof (cases "?key \<in> ex")
    case True
    with Cons show ?thesis by simp
  next
    case False
    obtain sl w1 where d: "draw_slug w = (sl, w1)" by (cases "draw_slug w")
    obtain r w2 where c: "create_plate sl oid ?key url (now_iso pf) w1 = (r, w2)"
      by (cases "create_plate sl oid ?key url (now_iso pf) w1")
    have p1: "plates w1 = plates w" using d by (rule draw_slug_plates)
    then have "?key \<in> stored_keys w1" using Cons.prems by (simp add: stored_keys_def)
    from create_plate_present[OF this c] obtain e where r: "r = Inl e" and p2: "plates w2 = plates w1"
      by auto
    have "\<forall>i \<in> set rest. sourceKey_of number lid i \<in> stored_keys w2"
      using Cons.prems p1 p2 by (simp add: stored_keys_def)
    from Cons.IH[OF this] have "plates (snd (unit_loop pf number oid lid url rest ex cr w2)) = plates w"
      using p1 p2 by simp
    then show ?thesis using False d c r p1 p2 by simp
  qed
qed


lemma markEvent_plates: "plates (markEvent ev d w) = plates w"
  by (auto simp: markEvent_def take_fault_def split: option.splits list.splits)

lemma find_plates_plates: "find_plates oid w = (r, w') \<Longrightarrow> plates w' = plates w"
  by (auto simp: find_plates_def take_fault_def split: option.splits list.splits)

lemma group_loop_present:
  "\<forall>k \<in> set (all_keys number gs). k \<in> stored_keys w \<Longrightarrow>
     plates (snd (group_loop pf ev number oid gs ex cr w)) = plates w"
proof (induction gs arbitrary: ex cr w)
  case Nil
  then show ?case by simp
next
  case (Cons g gs)
  show ?case
  proof (cases "lineItemId g = [] \<or> nonempty (normalizeGoogleReviewLinkStrict pf (reviewUrl g)) = None")
    case True
    then show ?thesis by (auto simp: markEvent_plates)
  next
    case False
    then obtain url where url: "nonempty (normalizeGoogleReviewLinkStrict pf (reviewUrl g)) = Some url"
      and lid: "lineItemId g \<noteq> []" by auto
    let ?run = "unit_loop pf number oid (lineItemId g) url [0 ..< nat (units g)] ex cr w"
    have here: "\<forall>i \<in> set [0 ..< nat (units g)]. sourceKey_of number (lineItemId g) i \<in> stored_keys w"
      using Cons.prems by (auto simp: all_keys_def group_keys_def)
    have same: "plates (snd ?run) = plates w"
      using here by (rule unit_loop_present)
    show ?thesis
    proof (cases ?run)
      case (Pair r w1)
      with same have p1: "plates w1 = plates w" by simp
      show ?thesis
      proof (cases r)
        case (Inl e)
        with Pair url lid p1 show ?thesis by simp
      next
        case (Inr st)
        obtain ex1 cr1 where st: "st = (ex1, cr1)" by (cases st)
        have "\<forall>k \<in> set (all_keys number gs). k \<in> stored_keys w1"
          using Cons.prems p1 by (simp add: all_keys_def stored_keys_def)
        from Cons.IH[OF this] have "plates (snd (group_loop pf ev number oid gs ex1 cr1 w1)) = plates w"
          using p1 by simp
        with Pair Inr st url lid show ?thesis by simp
      qed
    qed
  qed
qed

lemma generate_plates_present:
  assumes "\<forall>k \<in> set (all_keys number gs). k \<in> stored_keys w"
  shows "plates (snd (generate_plates pf ev number oid gs w)) = plates w"
proof (cases "find_plates oid w")
  case (Pair r w1)
  then have p1: "plates w1 = plates w" by (rule find_plates_plates)
  show ?thesis
  proof (cases r)
    case (Inl e)
    with Pair p1 show ?thesis by (simp add: generate_plates_def)
  next
    case (Inr docs)
    let ?ex = "set (filter (\<lambda>k. k \<noteq> []) (map sourceKey docs))"
    have "\<forall>k \<in> set (all_keys number gs). k \<in> stored_keys w1"
      using assms p1 by (simp add: stored_keys_def)
    then have "plates (snd (group_loop pf ev number oid gs ?ex [] w1)) = plates w"
      using p1 by (simp add: group_loop_present)
    with Pair Inr show ?thesis
      by (auto simp: generate_plates_def split: prod.splits flow.splits)
  qed
qed


lemma fresh_run_mono: "fresh_run w n \<Longrightarrow> m \<le> n \<Longrightarrow> fresh_run w m"
  by (simp add: fresh_run_def)

text \<open>One creation in a fresh run: the slug is new, so the storage rejects the plate
  only when its source key is stored already.\<close>

lemma fresh_create:
  assumes "fresh_run w (Suc m)"
  shows "\<exists>sl w1 r w2.
           draw_slug w = (sl, w1) \<and> create_plate sl oid key url at w1 = (r, w2) \<and> fresh_run w2 m \<and>
           (if key \<in> stored_keys w
            then r = Inl (unique_error w) \<and> plates w2 = plates w
            else (\<exists>i. r = Inr i) \<and>
                 plates w2 = plates w @ [\<lparr> pl_id = Suc (next_id w), slug = sl, pl_order = oid,
                   googleReviewUrl = url, pl_status = ''activated'', sourceKey = key, activatedAt = at \<rparr>])"
proof -
  from assms obtain sl ss where ss: "slugs w = sl # ss"
    by (cases "slugs w") (auto simp: fresh_run_def)
  from assms ss have f: "faults w = []" and d: "sl \<notin> set ss" "distinct ss"
    and new: "sl \<notin> set (map slug (plates w))" "set ss \<inter> set (map slug (plates w)) = {}"
    and len: "m \<le> length ss"
    by (auto simp: fresh_run_def)
  let ?w1 = "w\<lparr> slugs := ss \<rparr>"
  have draw: "draw_slug w = (sl, ?w1)" using ss by (simp add: draw_slug_def)
  show ?thesis
  proof (cases "key \<in> stored_keys w")
    case True
    then have "create_plate sl oid key url at ?w1 = (Inl (unique_error w), ?w1)"
      using f by (simp add: create_plate_def take_fault_def stored_keys_def)
    moreover have "fresh_run ?w1 m" using f d new len by (simp add: fresh_run_def)
    ultimately show ?thesis using draw True by auto
  next
    case False
    let ?p = "\<lparr> pl_id = Suc (next_id w), slug = sl, pl_order = oid,
                   googleReviewUrl = url, pl_status = ''activated'', sourceKey = key, activatedAt = at \<rparr>"
    let ?w2 = "?w1\<lparr> plates := plates w @ [?p], next_id := Suc (next_id w) \<rparr>"
    have "create_plate sl oid key url at ?w1 = (Inr (Suc (next_id w)), ?w2)"
      using f False new by (simp add: create_plate_def take_fault_def stored_keys_def)
    moreover have "fresh_run ?w2 m" using f d new len by (auto simp: fresh_run_def)
    ultimately show ?thesis using draw False by auto
  qed
qed

text \<open>A fresh run of the inner loop that is not stopped by a throw: afterwards every
  key of the loop is stored, and the rows added are the plates created, each with a key
  of the loop, the order and the destination.\<close>

lemma unit_loop_fresh:
  "fresh_run w (length idxs + n) \<Longrightarrow> ex \<subseteq> stored_keys w \<Longrightarrow>
   unit_loop pf number oid lid url idxs ex cr w = (Inr (ex', cr'), w') \<Longrightarrow>
     fresh_run w' n \<and> ex' \<subseteq> stored_keys w' \<and>
     sourceKey_of number lid ` set idxs \<subseteq> stored_keys w' \<and>
     (\<exists>new. plates w' = plates w @ new \<and> length cr' = length cr + length new \<and>
        (\<forall>p \<in> set new. sourceKey p \<in> sourceKey_of number lid ` set idxs \<and> pl_order p = oid \<and>
           googleReviewUrl p = url))"
proof (induction idxs arbitrary: ex cr w)
  case Nil
  then show ?case by simp
next
  case (Cons i rest)
  let ?key = "sourceKey_of number lid i"
  show ?case
  proof (cases "?key \<in> ex")
    case True
    from Cons.prems(1) have fr: "fresh_run w (length rest + n)"
      by (rule fresh_run_mono) simp
    from Cons.prems(3) True have run: "unit_loop pf number oid lid url rest ex cr w = (Inr (ex', cr'), w')"
      by simp
    from Cons.IH[OF fr Cons.prems(2) run] obtain new where
      ih: "fresh_run w' n" "ex' \<subseteq> stored_keys w'"
          "sourceKey_of number lid ` set rest \<subseteq> stored_keys w'"
          "plates w' = plates w @ new" "length cr' = length cr + length new"
          "\<forall>p \<in> set new. sourceKey p \<in> sourceKey_of number lid ` set rest \<and> pl_order p = oid \<and>
             googleReviewUrl p = url"
      by blast
    have key: "?key \<in> stored_keys w'"
      using True Cons.prems(2) ih(4) by (auto simp: stored_keys_def)
    have keys: "sourceKey_of number lid ` set (i # rest) \<subseteq> stored_keys w'"
      using key ih(3) by simp
    have rows: "\<forall>p \<in> set new. sourceKey p \<in> sourceKey_of number lid ` set (i # rest) \<and>
        pl_order p = oid \<and> googleReviewUrl p = url"
      using ih(6) by simp
    from ih(4,5) rows have "\<exists>new. plates w' = plates w @ new \<and> length cr' = length cr + length new \<and>
        (\<forall>p \<in> set new. sourceKey p \<in> sourceKey_of number lid ` set (i # rest) \<and>
           pl_order p = oid \<and> googleReviewUrl p = url)"
      by blast
    with ih(1,2) keys show ?thesis by blast
  next
    case False
    from Cons.prems(1) have "fresh_run w (Suc (length rest + n))" by simp
    from fresh_create[OF this, of oid ?key url "now_iso pf"] obtain sl w1 r w2 where
      d: "draw_slug w = (sl, w1)" and c: "create_plate sl oid ?key url (now_iso pf) w1 = (r, w2)"
      and fr: "fresh_run w2 (length rest + n)"
      and res: "if ?key \<in> stored_keys w
            then r = Inl (unique_error w) \<and> plates w2 = plates w
            else (\<exists>i. r = Inr i) \<and>
                 plates w2 = plates w @ [\<lparr> pl_id = Suc (next_id w), slug = sl, pl_order = oid,
                   googleReviewUrl = url, pl_status = ''activated'', sourceKey = ?key,
                   activatedAt = now_iso pf \<rparr>]"
      by blast
    show ?thesis
    proof (cases "?key \<in> stored_keys w")
      case True
      with res have r: "r = Inl (unique_error w)" and p2: "plates w2 = plates w" by auto
      from Cons.prems(3) False d c r
      have run: "unit_loop pf number oid lid url rest ex cr w2 = (Inr (ex', cr'), w')"
        by (simp split: if_splits)
      have sub: "ex \<subseteq> stored_keys w2" using Cons.prems(2) p2 by (simp add: stored_keys_def)
      from Cons.IH[OF fr sub run] obtain new where
        ih: "fresh_run w' n" "ex' \<subseteq> stored_keys w'"
            "sourceKey_of number lid ` set rest \<subseteq> stored_keys w'"
            "plates w' = plates w2 @ new" "length cr' = length cr + length new"
            "\<forall>p \<in> set new. sourceKey p \<in> sourceKey_of number lid ` set rest \<and> pl_order p = oid \<and>
               googleReviewUrl p = url"
        by blast
      have key: "?key \<in> stored_keys w'" using True ih(4) p2 by (auto simp: stored_keys_def)
      have keys: "sourceKey_of number lid ` set (i # rest) \<subseteq> stored_keys w'"
        using key ih(3) by simp
      have rows: "\<forall>p \<in> set new. sourceKey p \<in> sourceKey_of number lid ` set (i # rest) \<and>
          pl_order p = oid \<and> googleReviewUrl p = url"
        using ih(6) by simp
      have "plates w' = plates w @ new" using ih(4) p2 by simp
      with ih(5) rows have "\<exists>new. plates w' = plates w @ new \<and> length cr' = length cr + length new \<and>
          (\<forall>p \<in> set new. sourceKey p \<in> sourceKey_of number lid ` set (i # rest) \<and>
             pl_order p = oid \<and> googleReviewUrl p = url)"
        by blast
      with ih(1,2) keys show ?thesis by blast
    next
      case notin: False
      let ?p = "\<lparr> pl_id = Suc (next_id w), slug = sl, pl_order = oid,
                   googleReviewUrl = url, pl_status = ''activated'', sourceKey = ?key,
                   activatedAt = now_iso pf \<rparr>"
      let ?c = "\<lparr> cp_slug = sl, cp_reviewUrl = url, cp_publicUrl = ''/p/'' @ sl \<rparr>"
      from notin res obtain j where r: "r = Inr j" and p2: "plates w2 = plates w @ [?p]" by auto
      from Cons.prems(3) False d c r
      have run: "unit_loop pf number oid lid url rest (insert ?key ex) (cr @ [?c]) w2 = (Inr (ex', cr'), w')"
        by simp
      have sub: "insert ?key ex \<subseteq> stored_keys w2"
        using Cons.prems(2) p2 by (auto simp: stored_keys_def)
      from Cons.IH[OF fr sub run] obtain new where
        ih: "fresh_run w' n" "ex' \<subseteq> stored_keys w'"
            "sourceKey_of number lid ` set rest \<subseteq> stored_keys w'"
            "plates w' = plates w2 @ new" "length cr' = length (cr @ [?c]) + length new"
            "\<forall>p \<in> set new. sourceKey p \<in> sourceKey_of number lid ` set rest \<and> pl_order p = oid \<and>
               googleReviewUrl p = url"
        by blast
      have key: "?key \<in> stored_keys w'" using ih(4) p2 by (auto simp: stored_keys_def)
      have keys: "sourceKey_of number lid ` set (i # rest) \<subseteq> stored_keys w'"
        using key ih(3) by simp
      have "plates w' = plates w @ (?p # new)" using ih(4) p2 by simp
      moreover have "length cr' = length cr + length (?p # new)" using ih(5) by simp
      moreover have "\<forall>p \<in> set (?p # new). sourceKey p \<in> sourceKey_of number lid ` set (i # rest) \<and>
          pl_order p = oid \<and> googleReviewUrl p = url"
        using ih(6) by simp
      ultimately have "\<exists>new. plates w' = plates w @ new \<and> length cr' = length cr + length new \<and>
          (\<forall>p \<in> set new. sourceKey p \<in> sourceKey_of number lid ` set (i # rest) \<and>
             pl_order p = oid \<and> googleReviewUrl p = url)"
        by blast
      with ih(1,2) keys show ?thesis by blast
    qed
  qed
qed


lemma length_all_keys_Cons:
  "length (all_keys number (g # gs)) = length [0 ..< nat (units g)] + length (all_keys number gs)"
  by (simp add: all_keys_def group_keys_def)

lemma set_all_keys_Cons:
  "set (all_keys number (g # gs)) =
     sourceKey_of number (lineItemId g) ` set [0 ..< nat (units g)] \<union> set (all_keys number gs)"
  by (simp add: all_keys_def group_keys_def)

text \<open>The same for the outer loop, when it ends without a return or a throw.\<close>

lemma group_loop_fresh:
  "fresh_run w (length (all_keys number gs) + n) \<Longrightarrow> ex \<subseteq> stored_keys w \<Longrightarrow>
   group_loop pf ev number oid gs ex cr w = (Next (ex', cr'), w') \<Longrightarrow>
     fresh_run w' n \<and> ex' \<subseteq> stored_keys w' \<and> set (all_keys number gs) \<subseteq> stored_keys w' \<and>
     (\<exists>new. plates w' = plates w @ new \<and> length cr' = length cr + length new \<and>
        (\<forall>p \<in> set new. pl_order p = oid \<and>
           (\<exists>g \<in> set gs. sourceKey p \<in> set (group_keys number g) \<and>
              nonempty (normalizeGoogleReviewLinkStrict pf (reviewUrl g)) = Some (googleReviewUrl p))))"
proof (induction gs arbitrary: ex cr w)
  case Nil
  then have "fresh_run w' n" "ex' \<subseteq> stored_keys w'" "plates w' = plates w @ []" "length cr' = length cr + length ([] :: plate list)"
    by (auto elim: fresh_run_mono)
  then show ?case by (auto simp: all_keys_def)
next
  case (Cons g gs)
  let ?idxs = "[0 ..< nat (units g)]"
  from Cons.prems(3) obtain url where lid: "lineItemId g \<noteq> []"
    and url: "nonempty (normalizeGoogleReviewLinkStrict pf (reviewUrl g)) = Some url"
    by (auto split: if_splits option.splits)
  obtain r w1 where u: "unit_loop pf number oid (lineItemId g) url ?idxs ex cr w = (r, w1)"
    by (cases "unit_loop pf number oid (lineItemId g) url ?idxs ex cr w")
  from Cons.prems(3) lid url u obtain ex1 cr1 where r: "r = Inr (ex1, cr1)"
    and rest: "group_loop pf ev number oid gs ex1 cr1 w1 = (Next (ex', cr'), w')"
    by (auto split: sum.splits)
  have fr: "fresh_run w (length ?idxs + (length (all_keys number gs) + n))"
    using Cons.prems(1) by (simp add: length_all_keys_Cons add.assoc)
  from unit_loop_fresh[OF fr Cons.prems(2) u[unfolded r]] obtain new1 where
    a: "fresh_run w1 (length (all_keys number gs) + n)" "ex1 \<subseteq> stored_keys w1"
       "sourceKey_of number (lineItemId g) ` set ?idxs \<subseteq> stored_keys w1"
       "plates w1 = plates w @ new1" "length cr1 = length cr + length new1"
       "\<forall>p \<in> set new1. sourceKey p \<in> sourceKey_of number (lineItemId g) ` set ?idxs \<and>
          pl_order p = oid \<and> googleReviewUrl p = url"
    by blast
  from Cons.IH[OF a(1,2) rest] obtain new2 where
    b: "fresh_run w' n" "ex' \<subseteq> stored_keys w'" "set (all_keys number gs) \<subseteq> stored_keys w'"
       "plates w' = plates w1 @ new2" "length cr' = length cr1 + length new2"
       "\<forall>p \<in> set new2. pl_order p = oid \<and>
           (\<exists>g \<in> set gs. sourceKey p \<in> set (group_keys number g) \<and>
              nonempty (normalizeGoogleReviewLinkStrict pf (reviewUrl g)) = Some (googleReviewUrl p))"
    by blast
  have "stored_keys w1 \<subseteq> stored_keys w'" using b(4) by (auto simp: stored_keys_def)
  with a(3) b(3) have keys: "set (all_keys number (g # gs)) \<subseteq> stored_keys w'"
    by (auto simp: set_all_keys_Cons)
  have p: "plates w' = plates w @ (new1 @ new2)" using a(4) b(4) by simp
  have l: "length cr' = length cr + length (new1 @ new2)" using a(5) b(5) by simp
  have n1: "\<forall>p \<in> set new1. pl_order p = oid \<and>
           (\<exists>h \<in> set (g # gs). sourceKey p \<in> set (group_keys number h) \<and>
              nonempty (normalizeGoogleReviewLinkStrict pf (reviewUrl h)) = Some (googleReviewUrl p))"
    using a(6) url by (auto simp: group_keys_def)
  have n2: "\<forall>p \<in> set new2. pl_order p = oid \<and>
           (\<exists>h \<in> set (g # gs). sourceKey p \<in> set (group_keys number h) \<and>
              nonempty (normalizeGoogleReviewLinkStrict pf (reviewUrl h)) = Some (googleReviewUrl p))"
    using b(6) by auto
  from n1 n2 have rows: "\<forall>p \<in> set (new1 @ new2). pl_order p = oid \<and>
           (\<exists>h \<in> set (g # gs). sourceKey p \<in> set (group_keys number h) \<and>
              nonempty (normalizeGoogleReviewLinkStrict pf (reviewUrl h)) = Some (googleReviewUrl p))"
    by (metis Un_iff set_append)
  from p l rows have "\<exists>new. plates w' = plates w @ new \<and> length cr' = length cr + length new \<and>
        (\<forall>p \<in> set new. pl_order p = oid \<and>
           (\<exists>h \<in> set (g # gs). sourceKey p \<in> set (group_keys number h) \<and>
              nonempty (normalizeGoogleReviewLinkStrict pf (reviewUrl h)) = Some (googleReviewUrl p)))"
    by blast
  with b(1,2) keys show ?case by blast
qed

lemma snapshot_stored:
  "set (filter (\<lambda>k. k \<noteq> []) (map sourceKey (take 500 (filter (\<lambda>p. pl_order p = oid) (plates w)))))
     \<subseteq> stored_keys w"
proof -
  have "set (take 500 (filter (\<lambda>p. pl_order p = oid) (plates w))) \<subseteq> set (plates w)"
    using set_take_subset[of 500 "filter (\<lambda>p. pl_order p = oid) (plates w)"] by auto
  then show ?thesis by (auto simp: stored_keys_def)
qed

lemma generate_plates_fresh:
  assumes "fresh_run w (length (all_keys number gs) + n)"
    and "generate_plates pf ev number oid gs w = (Next cr, w')"
  shows "fresh_run w' n \<and> set (all_keys number gs) \<subseteq> stored_keys w' \<and>
     (\<exists>new. plates w' = plates w @ new \<and> length cr = length new \<and>
        (\<forall>p \<in> set new. pl_order p = oid \<and>
           (\<exists>g \<in> set gs. sourceKey p \<in> set (group_keys number g) \<and>
              nonempty (normalizeGoogleReviewLinkStrict pf (reviewUrl g)) = Some (googleReviewUrl p))))"
proof -
  let ?ex = "set (filter (\<lambda>k. k \<noteq> []) (map sourceKey (take 500 (filter (\<lambda>p. pl_order p = oid) (plates w)))))"
  from assms(1) have f: "faults w = []" by (simp add: fresh_run_def)
  then have fp: "find_plates oid w = (Inr (take 500 (filter (\<lambda>p. pl_order p = oid) (plates w))), w)"
    by (simp add: find_plates_def take_fault_def)
  from assms(2) fp obtain ex' where
    g: "group_loop pf ev number oid gs ?ex [] w = (Next (ex', cr), w')"
    by (auto simp: generate_plates_def split: prod.splits flow.splits)
  from group_loop_fresh[OF assms(1) snapshot_stored g] show ?thesis by auto
qed


text \<open>What happens to an error raised by a creation.\<close>

lemma unit_loop_creation_error:
  assumes "faults w = Some e # fs" "sourceKey_of number lid i \<notin> ex"
  shows "unit_loop pf number oid lid url (i # rest) ex cr w =
           (if isDuplicateKeyError e
            then unit_loop pf number oid lid url rest ex cr ((snd (draw_slug w))\<lparr> faults := fs \<rparr>)
            else (Inl e, (snd (draw_slug w))\<lparr> faults := fs \<rparr>))"
proof -
  obtain sl w1 where d: "draw_slug w = (sl, w1)" by (cases "draw_slug w")
  then have "faults w1 = Some e # fs" using assms(1) by (auto simp: draw_slug_def split: list.splits)
  then have "create_plate sl oid (sourceKey_of number lid i) url (now_iso pf) w1 = (Inl e, w1\<lparr> faults := fs \<rparr>)"
    by (simp add: create_plate_def take_fault_def)
  with d assms(2) show ?thesis by simp
qed

lemma unit_loop_throws:
  "unit_loop pf number oid lid url idxs ex cr w = (Inl e, w') \<Longrightarrow> \<not> isDuplicateKeyError e"
proof (induction idxs arbitrary: ex cr w)
  case Nil
  then show ?case by simp
next
  case (Cons i rest)
  show ?case
  proof (cases "sourceKey_of number lid i \<in> ex")
    case True
    with Cons show ?thesis by simp
  next
    case False
    obtain sl w1 where d: "draw_slug w = (sl, w1)" by (cases "draw_slug w")
    obtain r w2 where c: "create_plate sl oid (sourceKey_of number lid i) url (now_iso pf) w1 = (r, w2)"
      by (cases "create_plate sl oid (sourceKey_of number lid i) url (now_iso pf) w1")
    show ?thesis
    proof (cases r)
      case (Inr j)
      with Cons.prems False d c show ?thesis by (auto dest: Cons.IH)
    next
      case (Inl err)
      show ?thesis
      proof (cases "isDuplicateKeyError err")
        case True
        with Cons.prems False d c Inl show ?thesis by (auto dest: Cons.IH)
      next
        case dup: False
        with Cons.prems False d c Inl have "e = err" by simp
        with dup show ?thesis by simp
      qed
    qed
  qed
qed

lemma group_loop_throws:
  "group_loop pf ev number oid gs ex cr w = (Throw e, w') \<Longrightarrow> \<not> isDuplicateKeyError e"
proof (induction gs arbitrary: ex cr w)
  case Nil
  then show ?case by simp
next
  case (Cons g gs)
  from Cons.prems obtain url where lid: "lineItemId g \<noteq> []"
    and url: "nonempty (normalizeGoogleReviewLinkStrict pf (reviewUrl g)) = Some url"
    by (auto split: if_splits option.splits)
  obtain r w1 where u: "unit_loop pf number oid (lineItemId g) url [0 ..< nat (units g)] ex cr w = (r, w1)"
    by (cases "unit_loop pf number oid (lineItemId g) url [0 ..< nat (units g)] ex cr w")
  show ?case
  proof (cases r)
    case (Inl err)
    with Cons.prems lid url u have "e = err" by simp
    with u Inl show ?thesis using unit_loop_throws by blast
  next
    case (Inr st)
    obtain ex1 cr1 where "st = (ex1, cr1)" by (cases st)
    with Cons.prems lid url u Inr have "group_loop pf ev number oid gs ex1 cr1 w1 = (Throw e, w')"
      by simp
    then show ?thesis by (rule Cons.IH)
  qed
qed

text \<open>A retry on a healthy storage that recognisably rejects duplicates: every key is
  stored, nothing is created and the loops end normally.\<close>

lemma unit_loop_retry:
  "\<forall>i \<in> set idxs. sourceKey_of number lid i \<in> stored_keys w \<Longrightarrow> faults w = [] \<Longrightarrow>
   isDuplicateKeyError (unique_error w) \<Longrightarrow>
     \<exists>w'. unit_loop pf number oid lid url idxs ex cr w = (Inr (ex, cr), w') \<and> plates w' = plates w \<and>
       faults w' = [] \<and> unique_error w' = unique_error w"
proof (induction idxs arbitrary: w)
  case Nil
  then show ?case by simp
next
  case (Cons i rest)
  let ?key = "sourceKey_of number lid i"
  show ?case
  proof (cases "?key \<in> ex")
    case True
    with Cons show ?thesis by simp
  next
    case False
    obtain sl w1 where d: "draw_slug w = (sl, w1)" by (cases "draw_slug w")
    then have w1: "plates w1 = plates w" "faults w1 = []" "unique_error w1 = unique_error w"
      using Cons.prems(2) by (auto simp: draw_slug_def split: list.splits)
    have "?key \<in> stored_keys w1" using Cons.prems(1) w1(1) by (simp add: stored_keys_def)
    then have c: "create_plate sl oid ?key url (now_iso pf) w1 = (Inl (unique_error w), w1)"
      using w1 by (simp add: create_plate_def take_fault_def stored_keys_def)
    have "\<forall>i \<in> set rest. sourceKey_of number lid i \<in> stored_keys w1"
      using Cons.prems(1) w1(1) by (simp add: stored_keys_def)
    from Cons.IH[OF this w1(2)] Cons.prems(3) w1(3) obtain w' where
      "unit_loop pf number oid lid url rest ex cr w1 = (Inr (ex, cr), w')" "plates w' = plates w1"
      "faults w' = []" "unique_error w' = unique_error w1"
      by auto
    then show ?thesis using False d c Cons.prems(3) w1 by simp
  qed
qed

lemma group_loop_retry:
  "\<forall>k \<in> set (all_keys number gs). k \<in> stored_keys w \<Longrightarrow> faults w = [] \<Longrightarrow>
   isDuplicateKeyError (unique_error w) \<Longrightarrow>
   \<forall>g \<in> set gs. lineItemId g \<noteq> [] \<and> nonempty (normalizeGoogleReviewLinkStrict pf (reviewUrl g)) \<noteq> None \<Longrightarrow>
     \<exists>w'. group_loop pf ev number oid gs ex cr w = (Next (ex, cr), w') \<and> plates w' = plates w"
proof (induction gs arbitrary: w)
  case Nil
  then show ?case by simp
next
  case (Cons g gs)
  from Cons.prems(4) obtain url where lid: "lineItemId g \<noteq> []"
    and url: "nonempty (normalizeGoogleReviewLinkStrict pf (reviewUrl g)) = Some url"
    by auto
  have "\<forall>i \<in> set [0 ..< nat (units g)]. sourceKey_of number (lineItemId g) i \<in> stored_keys w"
    using Cons.prems(1) by (auto simp: set_all_keys_Cons)
  from unit_loop_retry[OF this Cons.prems(2,3)] obtain w1 where
    u: "unit_loop pf number oid (lineItemId g) url [0 ..< nat (units g)] ex cr w = (Inr (ex, cr), w1)"
    and w1: "plates w1 = plates w" "faults w1 = []" "unique_error w1 = unique_error w"
    by blast
  have "\<forall>k \<in> set (all_keys number gs). k \<in> stored_keys w1"
    using Cons.prems(1) w1(1) by (simp add: set_all_keys_Cons stored_keys_def)
  moreover have "isDuplicateKeyError (unique_error w1)" using Cons.prems(3) w1(3) by simp
  moreover have "\<forall>g \<in> set gs. lineItemId g \<noteq> [] \<and>
      nonempty (normalizeGoogleReviewLinkStrict pf (reviewUrl g)) \<noteq> None"
    using Cons.prems(4) by simp
  ultimately obtain w' where
    "group_loop pf ev number oid gs ex cr w1 = (Next (ex, cr), w')" "plates w' = plates w1"
    using Cons.IH[OF _ w1(2)] by blast
  then show ?case using lid url u w1 by simp
qed

lemma group_loop_valid:
  "group_loop pf ev number oid gs ex cr w = (Next st, w') \<Longrightarrow>
     \<forall>g \<in> set gs. lineItemId g \<noteq> [] \<and> nonempty (normalizeGoogleReviewLinkStrict pf (reviewUrl g)) \<noteq> None"
proof (induction gs arbitrary: ex cr w)
  case Nil
  then show ?case by simp
next
  case (Cons g gs)
  from Cons.prems obtain url where lid: "lineItemId g \<noteq> []"
    and url: "nonempty (normalizeGoogleReviewLinkStrict pf (reviewUrl g)) = Some url"
    by (auto split: if_splits option.splits)
  obtain r w1 where u: "unit_loop pf number oid (lineItemId g) url [0 ..< nat (units g)] ex cr w = (r, w1)"
    by (cases "unit_loop pf number oid (lineItemId g) url [0 ..< nat (units g)] ex cr w")
  from Cons.prems lid url u obtain ex1 cr1 where
    "group_loop pf ev number oid gs ex1 cr1 w1 = (Next st, w')"
    by (auto split: sum.splits)
  from Cons.IH[OF this] lid url show ?case by simp
qed

lemma generate_plates_retry:
  assumes "\<forall>k \<in> set (all_keys number gs). k \<in> stored_keys w" "faults w = []"
    "isDuplicateKeyError (unique_error w)"
    "\<forall>g \<in> set gs. lineItemId g \<noteq> [] \<and> nonempty (normalizeGoogleReviewLinkStrict pf (reviewUrl g)) \<noteq> None"
  shows "fst (generate_plates pf ev number oid gs w) = Next []"
proof -
  have fp: "find_plates oid w = (Inr (take 500 (filter (\<lambda>p. pl_order p = oid) (plates w))), w)"
    using assms(2) by (simp add: find_plates_def take_fault_def)
  from group_loop_retry[OF assms] obtain w' where
    "group_loop pf ev number oid gs
       (set (filter (\<lambda>k. k \<noteq> []) (map sourceKey (take 500 (filter (\<lambda>p. pl_order p = oid) (plates w))))))
       [] w = (Next (set (filter (\<lambda>k. k \<noteq> []) (map sourceKey (take 500 (filter (\<lambda>p. pl_order p = oid) (plates w))))), []), w')"
    by blast
  with fp show ?thesis by (simp add: generate_plates_def)
qed


text \<open>The unique index on the source key: no run stores a key twice.\<close>

lemma unit_loop_distinct:
  "distinct (map sourceKey (plates w)) \<Longrightarrow>
     distinct (map sourceKey (plates (snd (unit_loop pf number oid lid url idxs ex cr w))))"
proof (induction idxs arbitrary: ex cr w)
  case Nil
  then show ?case by simp
next
  case (Cons i rest)
  let ?key = "sourceKey_of number lid i"
  show ?case
  proof (cases "?key \<in> ex")
    case True
    with Cons show ?thesis by simp
  next
    case False
    obtain sl w1 where d: "draw_slug w = (sl, w1)" by (cases "draw_slug w")
    obtain r w2 where c: "create_plate sl oid ?key url (now_iso pf) w1 = (r, w2)"
      by (cases "create_plate sl oid ?key url (now_iso pf) w1")
    have p1: "plates w1 = plates w" using d by (rule draw_slug_plates)
    from create_plate_cases[OF c] p1 Cons.prems have d2: "distinct (map sourceKey (plates w2))"
      by (auto simp: stored_keys_def)
    show ?thesis
    proof (cases r)
      case (Inr j)
      with False d c Cons.IH[OF d2] show ?thesis by simp
    next
      case (Inl err)
      with False d c Cons.IH[OF d2] d2 show ?thesis by simp
    qed
  qed
qed

lemma group_loop_distinct:
  "distinct (map sourceKey (plates w)) \<Longrightarrow>
     distinct (map sourceKey (plates (snd (group_loop pf ev number oid gs ex cr w))))"
proof (induction gs arbitrary: ex cr w)
  case Nil
  then show ?case by simp
next
  case (Cons g gs)
  show ?case
  proof (cases "lineItemId g = [] \<or> nonempty (normalizeGoogleReviewLinkStrict pf (reviewUrl g)) = None")
    case True
    with Cons.prems show ?thesis by (auto simp: markEvent_plates)
  next
    case False
    then obtain url where url: "nonempty (normalizeGoogleReviewLinkStrict pf (reviewUrl g)) = Some url"
      and lid: "lineItemId g \<noteq> []" by auto
    obtain r w1 where u: "unit_loop pf number oid (lineItemId g) url [0 ..< nat (units g)] ex cr w = (r, w1)"
      by (cases "unit_loop pf number oid (lineItemId g) url [0 ..< nat (units g)] ex cr w")
    from unit_loop_distinct[OF Cons.prems, of pf number oid "lineItemId g" url "[0 ..< nat (units g)]" ex cr] u
    have d1: "distinct (map sourceKey (plates w1))" by simp
    show ?thesis
    proof (cases r)
      case (Inl e)
      with u url lid d1 show ?thesis by simp
    next
      case (Inr st)
      obtain ex1 cr1 where "st = (ex1, cr1)" by (cases st)
      with u url lid Inr Cons.IH[OF d1] show ?thesis by simp
    qed
  qed
qed

lemma generate_plates_distinct:
  assumes "distinct (map sourceKey (plates w))"
  shows "distinct (map sourceKey (plates (snd (generate_plates pf ev number oid gs w))))"
proof (cases "find_plates oid w")
  case (Pair r w1)
  then have p1: "plates w1 = plates w" by (rule find_plates_plates)
  show ?thesis
  proof (cases r)
    case (Inl e)
    with Pair p1 assms show ?thesis by (simp add: generate_plates_def)
  next
    case (Inr docs)
    from assms p1 have "distinct (map sourceKey (plates w1))" by simp
    from group_loop_distinct[OF this, of pf ev number oid gs
        "set (filter (\<lambda>k. k \<noteq> []) (map sourceKey docs))" "[]"] Pair Inr
    show ?thesis
      by (auto simp: generate_plates_def split: prod.splits flow.splits)
  qed
qed

lemma group_keys_iff:
  "k \<in> set (group_keys number g) \<longleftrightarrow> (\<exists>i < nat (units g). k = sourceKey_of number (lineItemId g) i)"
  unfolding group_keys_def by (simp add: image_iff) (metis atLeastLessThan_iff zero_le)

lemma all_keys_iff:
  "k \<in> set (all_keys number gs) \<longleftrightarrow>
     (\<exists>g \<in> set gs. \<exists>i < nat (units g). k = sourceKey_of number (lineItemId g) i)"
  by (simp add: all_keys_def group_keys_iff)

text \<open>Keys that are all in the snapshot: the loops make no call to the storage.\<close>

lemma unit_loop_skip:
  "sourceKey_of number lid ` set idxs \<subseteq> ex \<Longrightarrow>
     unit_loop pf number oid lid url idxs ex cr w = (Inr (ex, cr), w)"
  by (induction idxs) auto

lemma group_loop_skip:
  "set (all_keys number gs) \<subseteq> ex \<Longrightarrow>
   \<forall>g \<in> set gs. lineItemId g \<noteq> [] \<and> nonempty (normalizeGoogleReviewLinkStrict pf (reviewUrl g)) \<noteq> None \<Longrightarrow>
     group_loop pf ev number oid gs ex cr w = (Next (ex, cr), w)"
proof (induction gs)
  case Nil
  then show ?case by simp
next
  case (Cons g gs)
  from Cons.prems(2) obtain url where lid: "lineItemId g \<noteq> []"
    and url: "nonempty (normalizeGoogleReviewLinkStrict pf (reviewUrl g)) = Some url" by auto
  have "sourceKey_of number (lineItemId g) ` set [0 ..< nat (units g)] \<subseteq> ex"
    using Cons.prems(1) by (auto simp: set_all_keys_Cons)
  then have u: "unit_loop pf number oid (lineItemId g) url [0 ..< nat (units g)] ex cr w = (Inr (ex, cr), w)"
    by (rule unit_loop_skip)
  have "group_loop pf ev number oid gs ex cr w = (Next (ex, cr), w)"
    using Cons.prems by (intro Cons.IH) (auto simp: set_all_keys_Cons)
  with lid url u show ?case by simp
qed

lemma sourceKey_of_nonempty: "sourceKey_of number lid i \<noteq> []"
  by (simp add: sourceKey_of_def)

lemma find_plates_no_fault:
  "no_fault_next w \<Longrightarrow>
     find_plates oid w =
       (Inr (take 500 (filter (\<lambda>p. pl_order p = oid) (plates w))), w\<lparr> faults := tl (faults w) \<rparr>)"
  by (cases "faults w") (auto simp: find_plates_def take_fault_def no_fault_next_def)

lemma generate_plates_skip:
  assumes "no_fault_next w"
    and "set (all_keys number gs) \<subseteq> sourceKey ` set (take 500 (filter (\<lambda>p. pl_order p = oid) (plates w)))"
    and "\<forall>g \<in> set gs. lineItemId g \<noteq> [] \<and> nonempty (normalizeGoogleReviewLinkStrict pf (reviewUrl g)) \<noteq> None"
  shows "generate_plates pf ev number oid gs w = (Next [], w\<lparr> faults := tl (faults w) \<rparr>)"
proof -
  let ?docs = "take 500 (filter (\<lambda>p. pl_order p = oid) (plates w))"
  let ?ex = "set (filter (\<lambda>k. k \<noteq> []) (map sourceKey ?docs))"
  have "set (all_keys number gs) \<subseteq> ?ex"
  proof
    fix k assume k: "k \<in> set (all_keys number gs)"
    then have "k \<noteq> []" using sourceKey_of_nonempty by (auto simp: all_keys_iff)
    with k assms(2) show "k \<in> ?ex" by auto
  qed
  from group_loop_skip[OF this assms(3)]
  have "group_loop pf ev number oid gs ?ex [] (w\<lparr> faults := tl (faults w) \<rparr>) =
      (Next (?ex, []), w\<lparr> faults := tl (faults w) \<rparr>)" .
  then show ?thesis
    using find_plates_no_fault[OF assms(1)] by (simp add: generate_plates_def)
qed

text \<open>The errors a creation raises: the scheduled failure, or the storage's uniqueness
  error when the source key or the slug is stored already.\<close>

lemma create_plate_error:
  assumes "create_plate sl oid key url at w = (Inl e, w')"
  shows "(\<exists>fs. faults w = Some e # fs) \<or>
         (no_fault_next w \<and> e = unique_error w \<and>
            (key \<in> stored_keys w \<or> sl \<in> set (map slug (plates w))))"
  using assms
  by (auto simp: create_plate_def take_fault_def stored_keys_def no_fault_next_def
      split: list.splits option.splits if_splits)

lemma create_plate_rejects:
  assumes "no_fault_next w" "key \<in> stored_keys w \<or> sl \<in> set (map slug (plates w))"
  shows "create_plate sl oid key url at w = (Inl (unique_error w), w\<lparr> faults := tl (faults w) \<rparr>)"
  using assms
  by (cases "faults w") (auto simp: create_plate_def take_fault_def stored_keys_def no_fault_next_def)

lemma unit_loop_create_error:
  assumes "sourceKey_of number lid i \<notin> ex" "draw_slug w = (sl, wa)"
    and "create_plate sl oid (sourceKey_of number lid i) url (now_iso pf) wa = (Inl e, wb)"
  shows "unit_loop pf number oid lid url (i # rest) ex cr w =
           (if isDuplicateKeyError e then unit_loop pf number oid lid url rest ex cr wb
            else (Inl e, wb))"
  using assms by simp

text \<open>When every failure scheduled and the storage's uniqueness error are classified as
  duplicates, every creation error is swallowed: the loops do not throw.\<close>

lemma draw_slug_classified: "draw_slug w = (sl, w') \<Longrightarrow> all_classified w \<Longrightarrow> all_classified w'"
  by (auto simp: draw_slug_def all_classified_def split: list.splits)

lemma create_plate_classified:
  assumes "create_plate sl oid key url at w = (r, w')" "all_classified w"
  shows "all_classified w' \<and> (\<forall>e. r = Inl e \<longrightarrow> isDuplicateKeyError e)"
  using assms
  by (auto simp: create_plate_def take_fault_def all_classified_def
      split: list.splits option.splits if_splits)

lemma unit_loop_classified:
  "all_classified w \<Longrightarrow>
     \<exists>st w'. unit_loop pf number oid lid url idxs ex cr w = (Inr st, w') \<and> all_classified w'"
proof (induction idxs arbitrary: ex cr w)
  case Nil
  then show ?case by simp
next
  case (Cons i rest)
  let ?key = "sourceKey_of number lid i"
  show ?case
  proof (cases "?key \<in> ex")
    case True
    with Cons show ?thesis by simp
  next
    case False
    obtain sl w1 where d: "draw_slug w = (sl, w1)" by (cases "draw_slug w")
    obtain r w2 where c: "create_plate sl oid ?key url (now_iso pf) w1 = (r, w2)"
      by (cases "create_plate sl oid ?key url (now_iso pf) w1")
    from create_plate_classified[OF c draw_slug_classified[OF d Cons.prems]]
    have a2: "all_classified w2" and dup: "\<forall>e. r = Inl e \<longrightarrow> isDuplicateKeyError e" by auto
    show ?thesis
    proof (cases r)
      case (Inr j)
      from Cons.IH[OF a2] obtain st w' where
        "unit_loop pf number oid lid url rest (insert ?key ex)
           (cr @ [\<lparr> cp_slug = sl, cp_reviewUrl = url, cp_publicUrl = ''/p/'' @ sl \<rparr>]) w2 = (Inr st, w')"
        "all_classified w'" by blast
      with False d c Inr show ?thesis by simp
    next
      case (Inl e)
      with dup have "isDuplicateKeyError e" by simp
      moreover from Cons.IH[OF a2] obtain st w' where
        "unit_loop pf number oid lid url rest ex cr w2 = (Inr st, w')" "all_classified w'" by blast
      ultimately show ?thesis using False d c Inl by simp
    qed
  qed
qed

lemma group_loop_classified:
  "all_classified w \<Longrightarrow>
   \<forall>g \<in> set gs. lineItemId g \<noteq> [] \<and> nonempty (normalizeGoogleReviewLinkStrict pf (reviewUrl g)) \<noteq> None \<Longrightarrow>
     \<exists>st w'. group_loop pf ev number oid gs ex cr w = (Next st, w')"
proof (induction gs arbitrary: ex cr w)
  case Nil
  then show ?case by simp
next
  case (Cons g gs)
  from Cons.prems(2) obtain url where lid: "lineItemId g \<noteq> []"
    and url: "nonempty (normalizeGoogleReviewLinkStrict pf (reviewUrl g)) = Some url" by auto
  from unit_loop_classified[OF Cons.prems(1)] obtain st w1 where
    u: "unit_loop pf number oid (lineItemId g) url [0 ..< nat (units g)] ex cr w = (Inr st, w1)"
    and a1: "all_classified w1" by blast
  obtain ex1 cr1 where st: "st = (ex1, cr1)" by (cases st)
  have "\<exists>st w'. group_loop pf ev number oid gs ex1 cr1 w1 = (Next st, w')"
    using a1 Cons.prems(2) by (intro Cons.IH) auto
  with lid url u st show ?case by simp
qed

text \<open>
  C1, as amended. Plate generation is idempotent per source key. Let the generation step
  (the snapshot read, then the two loops) run in an execution that meets no storage
  failure and draws unused slugs, and end normally. Then every unit index \<open>i\<close> below
  \<open>units\<close> of every group has its plate stored under \<open>orderNumber|lineItemId|i\<close>; the rows
  added are the plates reported as created, each under such a key and under this order; a
  source key is never stored twice. Running the step again over the same order and groups
  stores no new row, whatever failures and slugs the second run meets. When the keys
  were new to the storage and the order holds at most 500 plates, the snapshot of the
  second run holds every key: once its read went through, the run ends with nothing
  created and without one more call to the storage, whatever failures are scheduled
  after the read. On a storage whose uniqueness error the classifier recognises the
  second run ends normally with nothing created.
  A creation raises the failure scheduled for it or, when the source key or the slug is
  stored already, the storage's uniqueness error. The error a creation raises is
  swallowed when \<open>isDuplicateKeyError\<close> classifies it as a uniqueness violation (the loop
  goes on with the next index) and is thrown otherwise; an error the loops throw is never
  one so classified, and when every error that can be raised is so classified the loops do
  not throw.
\<close>

theorem plate_generation_idempotent:
  assumes "fresh_run w (length (all_keys number gs))"
    and "generate_plates pf ev number oid gs w = (Next cr, w1)"
  shows
    "(\<forall>g \<in> set gs. \<forall>i < nat (units g).
        number @ ''|'' @ lineItemId g @ ''|'' @ show_nat i \<in> stored_keys w1) \<and>
     (\<exists>new. plates w1 = plates w @ new \<and> length cr = length new \<and>
        (\<forall>p \<in> set new. pl_order p = oid \<and>
           (\<exists>g \<in> set gs. \<exists>i < nat (units g).
              sourceKey p = number @ ''|'' @ lineItemId g @ ''|'' @ show_nat i))) \<and>
     (distinct (map sourceKey (plates w)) \<longrightarrow> distinct (map sourceKey (plates w1))) \<and>
     (\<forall>fs ss. plates (snd (generate_plates pf ev number oid gs (w1\<lparr> faults := fs, slugs := ss \<rparr>)))
        = plates w1) \<and>
     (set (all_keys number gs) \<inter> stored_keys w = {} \<and>
      length (filter (\<lambda>p. pl_order p = oid) (plates w1)) \<le> 500 \<longrightarrow>
        (\<forall>fs ss. no_fault_next (w1\<lparr> faults := fs \<rparr>) \<longrightarrow>
           generate_plates pf ev number oid gs (w1\<lparr> faults := fs, slugs := ss \<rparr>) =
             (Next [], w1\<lparr> faults := tl fs, slugs := ss \<rparr>))) \<and>
     (\<forall>ss. isDuplicateKeyError (unique_error w1) \<longrightarrow>
        fst (generate_plates pf ev number oid gs (w1\<lparr> faults := [], slugs := ss \<rparr>)) = Next []) \<and>
     (\<forall>ex0 cr0 w0. all_classified w0 \<longrightarrow>
        (\<exists>st w2. group_loop pf ev number oid gs ex0 cr0 w0 = (Next st, w2))) \<and>
     (\<forall>ex0 cr0 w0 e w2. group_loop pf ev number oid gs ex0 cr0 w0 = (Throw e, w2) \<longrightarrow>
        \<not> isDuplicateKeyError e) \<and>
     (\<forall>lid url i rest ex0 cr0 w0 sl wa e wb.
        sourceKey_of number lid i \<notin> ex0 \<and> draw_slug w0 = (sl, wa) \<and>
        create_plate sl oid (sourceKey_of number lid i) url (now_iso pf) wa = (Inl e, wb) \<longrightarrow>
        unit_loop pf number oid lid url (i # rest) ex0 cr0 w0 =
          (if isDuplicateKeyError e then unit_loop pf number oid lid url rest ex0 cr0 wb
           else (Inl e, wb))) \<and>
     (\<forall>sl key url at w0 e wb.
        create_plate sl oid key url at w0 = (Inl e, wb) \<longrightarrow>
        (\<exists>fs. faults w0 = Some e # fs) \<or>
        (no_fault_next w0 \<and> e = unique_error w0 \<and>
           (key \<in> stored_keys w0 \<or> sl \<in> set (map slug (plates w0))))) \<and>
     (\<forall>sl key url at w0.
        no_fault_next w0 \<and> (key \<in> stored_keys w0 \<or> sl \<in> set (map slug (plates w0))) \<longrightarrow>
        create_plate sl oid key url at w0 = (Inl (unique_error w0), w0\<lparr> faults := tl (faults w0) \<rparr>)) \<and>
     (\<forall>lid url i rest ex0 cr0 w0.
        sourceKey_of number lid i \<in> ex0 \<longrightarrow>
        unit_loop pf number oid lid url (i # rest) ex0 cr0 w0 =
          unit_loop pf number oid lid url rest ex0 cr0 w0)"
proof -
  from assms(1) have fr: "fresh_run w (length (all_keys number gs) + 0)" by simp
  from generate_plates_fresh[OF fr assms(2)] obtain new where
    keys: "set (all_keys number gs) \<subseteq> stored_keys w1"
    and new: "plates w1 = plates w @ new" "length cr = length new"
      "\<forall>p \<in> set new. pl_order p = oid \<and>
           (\<exists>g \<in> set gs. sourceKey p \<in> set (group_keys number g) \<and>
              nonempty (normalizeGoogleReviewLinkStrict pf (reviewUrl g)) = Some (googleReviewUrl p))"
    by blast
  have "\<forall>g \<in> set gs. \<forall>i < nat (units g). sourceKey_of number (lineItemId g) i \<in> stored_keys w1"
    using keys all_keys_iff by blast
  then have c1: "\<forall>g \<in> set gs. \<forall>i < nat (units g).
        number @ ''|'' @ lineItemId g @ ''|'' @ show_nat i \<in> stored_keys w1"
    unfolding sourceKey_of_def .
  have "\<forall>p \<in> set new. pl_order p = oid \<and>
           (\<exists>g \<in> set gs. \<exists>i < nat (units g). sourceKey p = sourceKey_of number (lineItemId g) i)"
    using new(3) group_keys_iff by blast
  then have "\<forall>p \<in> set new. pl_order p = oid \<and>
           (\<exists>g \<in> set gs. \<exists>i < nat (units g).
              sourceKey p = number @ ''|'' @ lineItemId g @ ''|'' @ show_nat i)"
    unfolding sourceKey_of_def .
  with new(1,2) have c2: "\<exists>new. plates w1 = plates w @ new \<and> length cr = length new \<and>
        (\<forall>p \<in> set new. pl_order p = oid \<and>
           (\<exists>g \<in> set gs. \<exists>i < nat (units g).
              sourceKey p = number @ ''|'' @ lineItemId g @ ''|'' @ show_nat i))"
    by blast
  have c3: "distinct (map sourceKey (plates w)) \<longrightarrow> distinct (map sourceKey (plates w1))"
    using generate_plates_distinct[of w pf ev number oid gs] assms(2) by simp
  have c4: "\<forall>fs ss. plates (snd (generate_plates pf ev number oid gs (w1\<lparr> faults := fs, slugs := ss \<rparr>)))
        = plates w1"
  proof (intro allI)
    fix fs ss
    have "\<forall>k \<in> set (all_keys number gs). k \<in> stored_keys (w1\<lparr> faults := fs, slugs := ss \<rparr>)"
      using keys by (auto simp: stored_keys_def)
    from generate_plates_present[OF this]
    show "plates (snd (generate_plates pf ev number oid gs (w1\<lparr> faults := fs, slugs := ss \<rparr>))) = plates w1"
      by simp
  qed
  obtain r0 w0 where fp: "find_plates oid w = (r0, w0)" by (cases "find_plates oid w")
  from assms(2) fp obtain docs st where "r0 = Inr docs"
    and "group_loop pf ev number oid gs (set (filter (\<lambda>k. k \<noteq> []) (map sourceKey docs))) [] w0 = (Next st, w1)"
    by (auto simp: generate_plates_def split: sum.splits prod.splits flow.splits)
  from group_loop_valid[OF this(2)]
  have valid: "\<forall>g \<in> set gs. lineItemId g \<noteq> [] \<and>
      nonempty (normalizeGoogleReviewLinkStrict pf (reviewUrl g)) \<noteq> None" .
  have c5: "set (all_keys number gs) \<inter> stored_keys w = {} \<and>
      length (filter (\<lambda>p. pl_order p = oid) (plates w1)) \<le> 500 \<longrightarrow>
        (\<forall>fs ss. no_fault_next (w1\<lparr> faults := fs \<rparr>) \<longrightarrow>
           generate_plates pf ev number oid gs (w1\<lparr> faults := fs, slugs := ss \<rparr>) =
             (Next [], w1\<lparr> faults := tl fs, slugs := ss \<rparr>))"
  proof (intro impI allI, elim conjE)
    fix fs ss
    assume disj: "set (all_keys number gs) \<inter> stored_keys w = {}"
      and len: "length (filter (\<lambda>p. pl_order p = oid) (plates w1)) \<le> 500"
      and nf: "no_fault_next (w1\<lparr> faults := fs \<rparr>)"
    let ?w = "w1\<lparr> faults := fs, slugs := ss \<rparr>"
    have "stored_keys w1 = stored_keys w \<union> sourceKey ` set new"
      using new(1) by (simp add: stored_keys_def)
    with keys disj have "set (all_keys number gs) \<subseteq> sourceKey ` set new" by blast
    moreover have "set new \<subseteq> set (filter (\<lambda>p. pl_order p = oid) (plates w1))"
      using new(1,3) by auto
    moreover have "take 500 (filter (\<lambda>p. pl_order p = oid) (plates w1)) =
        filter (\<lambda>p. pl_order p = oid) (plates w1)"
      using len by simp
    ultimately have sub: "set (all_keys number gs) \<subseteq>
        sourceKey ` set (take 500 (filter (\<lambda>p. pl_order p = oid) (plates ?w)))"
      by auto
    have nf': "no_fault_next ?w" using nf by (simp add: no_fault_next_def)
    from generate_plates_skip[OF nf' sub valid]
    show "generate_plates pf ev number oid gs ?w = (Next [], w1\<lparr> faults := tl fs, slugs := ss \<rparr>)"
      by simp
  qed
  have c6: "\<forall>ss. isDuplicateKeyError (unique_error w1) \<longrightarrow>
        fst (generate_plates pf ev number oid gs (w1\<lparr> faults := [], slugs := ss \<rparr>)) = Next []"
  proof (intro allI impI)
    fix ss
    assume dup: "isDuplicateKeyError (unique_error w1)"
    have "\<forall>k \<in> set (all_keys number gs). k \<in> stored_keys (w1\<lparr> faults := [], slugs := ss \<rparr>)"
      using keys by (auto simp: stored_keys_def)
    from generate_plates_retry[OF this _ _ valid] dup
    show "fst (generate_plates pf ev number oid gs (w1\<lparr> faults := [], slugs := ss \<rparr>)) = Next []"
      by simp
  qed
  have c7: "\<forall>ex0 cr0 w0. all_classified w0 \<longrightarrow>
        (\<exists>st w2. group_loop pf ev number oid gs ex0 cr0 w0 = (Next st, w2))"
    using group_loop_classified[OF _ valid] by blast
  have c8: "\<forall>ex0 cr0 w0 e w2. group_loop pf ev number oid gs ex0 cr0 w0 = (Throw e, w2) \<longrightarrow>
        \<not> isDuplicateKeyError e"
    using group_loop_throws by blast
  have c9: "\<forall>lid url i rest ex0 cr0 w0 sl wa e wb.
        sourceKey_of number lid i \<notin> ex0 \<and> draw_slug w0 = (sl, wa) \<and>
        create_plate sl oid (sourceKey_of number lid i) url (now_iso pf) wa = (Inl e, wb) \<longrightarrow>
        unit_loop pf number oid lid url (i # rest) ex0 cr0 w0 =
          (if isDuplicateKeyError e then unit_loop pf number oid lid url rest ex0 cr0 wb
           else (Inl e, wb))"
    using unit_loop_create_error by blast
  have c10: "\<forall>sl key url at w0 e wb.
        create_plate sl oid key url at w0 = (Inl e, wb) \<longrightarrow>
        (\<exists>fs. faults w0 = Some e # fs) \<or>
        (no_fault_next w0 \<and> e = unique_error w0 \<and>
           (key \<in> stored_keys w0 \<or> sl \<in> set (map slug (plates w0))))"
    using create_plate_error by blast
  have c11: "\<forall>sl key url at w0.
        no_fault_next w0 \<and> (key \<in> stored_keys w0 \<or> sl \<in> set (map slug (plates w0))) \<longrightarrow>
        create_plate sl oid key url at w0 = (Inl (unique_error w0), w0\<lparr> faults := tl (faults w0) \<rparr>)"
    using create_plate_rejects by blast
  have c12: "\<forall>lid url i rest ex0 cr0 w0.
        sourceKey_of number lid i \<in> ex0 \<longrightarrow>
        unit_loop pf number oid lid url (i # rest) ex0 cr0 w0 =
          unit_loop pf number oid lid url rest ex0 cr0 w0"
    by simp
  show ?thesis
    by (intro conjI) (fact c1 c2 c3 c4 c5 c6 c7 c8 c9 c10 c11 c12)+
qed

theorem plate_generation_idempotent_witness:
  "fresh_run example_world (length (all_keys ''1001''
       [\<lparr> reviewUrl = ''https://g.page/r/ABC123/review'', units = 4, lineItemId = ''li_77'' \<rparr>])) \<and>
   fst (generate_plates (example_platform example_item Some) None ''1001'' 2
       [\<lparr> reviewUrl = ''https://g.page/r/ABC123/review'', units = 4, lineItemId = ''li_77'' \<rparr>]
       example_world) =
     Next [\<lparr> cp_slug = ''0a0000000001'', cp_reviewUrl = ''https://g.page/r/ABC123/review'',
              cp_publicUrl = ''/p/0a0000000001'' \<rparr>,
           \<lparr> cp_slug = ''0a0000000002'', cp_reviewUrl = ''https://g.page/r/ABC123/review'',
              cp_publicUrl = ''/p/0a0000000002'' \<rparr>,
           \<lparr> cp_slug = ''0a0000000003'', cp_reviewUrl = ''https://g.page/r/ABC123/review'',
              cp_publicUrl = ''/p/0a0000000003'' \<rparr>,
           \<lparr> cp_slug = ''0a0000000004'', cp_reviewUrl = ''https://g.page/r/ABC123/review'',
              cp_publicUrl = ''/p/0a0000000004'' \<rparr>] \<and>
   ''1001|li_77|3'' \<in> stored_keys (snd (generate_plates (example_platform example_item Some) None ''1001'' 2
       [\<lparr> reviewUrl = ''https://g.page/r/ABC123/review'', units = 4, lineItemId = ''li_77'' \<rparr>]
       example_world)) \<and>
   plates (snd (generate_plates (example_platform example_item Some) None ''1001'' 2
       [\<lparr> reviewUrl = ''https://g.page/r/ABC123/review'', units = 4, lineItemId = ''li_77'' \<rparr>]
       ((snd (generate_plates (example_platform example_item Some) None ''1001'' 2
          [\<lparr> reviewUrl = ''https://g.page/r/ABC123/review'', units = 4, lineItemId = ''li_77'' \<rparr>]
          example_world))\<lparr> faults := [Some (Error ''socket hang up'')], slugs := [] \<rparr>))) =
   plates (snd (generate_plates (example_platform example_item Some) None ''1001'' 2
       [\<lparr> reviewUrl = ''https://g.page/r/ABC123/review'', units = 4, lineItemId = ''li_77'' \<rparr>]
       example_world)) \<and>
   set (all_keys ''1001''
       [\<lparr> reviewUrl = ''https://g.page/r/ABC123/review'', units = 4, lineItemId = ''li_77'' \<rparr>])
     \<inter> stored_keys example_world = {} \<and>
   length (filter (\<lambda>p. pl_order p = 2)
     (plates (snd (generate_plates (example_platform example_item Some) None ''1001'' 2
       [\<lparr> reviewUrl = ''https://g.page/r/ABC123/review'', units = 4, lineItemId = ''li_77'' \<rparr>]
       example_world)))) \<le> 500 \<and>
   generate_plates (example_platform example_item Some) None ''1001'' 2
       [\<lparr> reviewUrl = ''https://g.page/r/ABC123/review'', units = 4, lineItemId = ''li_77'' \<rparr>]
       ((snd (generate_plates (example_platform example_item Some) None ''1001'' 2
          [\<lparr> reviewUrl = ''https://g.page/r/ABC123/review'', units = 4, lineItemId = ''li_77'' \<rparr>]
          example_world))\<lparr> faults := [None, Some (Error ''socket hang up'')], slugs := [] \<rparr>) =
     (Next [],
      (snd (generate_plates (example_platform example_item Some) None ''1001'' 2
          [\<lparr> reviewUrl = ''https://g.page/r/ABC123/review'', units = 4, lineItemId = ''li_77'' \<rparr>]
          example_world))\<lparr> faults := [Some (Error ''socket hang up'')], slugs := [] \<rparr>)"
proof -
  let ?gs = "[\<lparr> reviewUrl = ''https://g.page/r/ABC123/review'', units = 4, lineItemId = ''li_77'' \<rparr>]"
  let ?run = "generate_plates (example_platform example_item Some) None ''1001'' 2 ?gs example_world"
  let ?cr = "[\<lparr> cp_slug = ''0a0000000001'', cp_reviewUrl = ''https://g.page/r/ABC123/review'',
              cp_publicUrl = ''/p/0a0000000001'' \<rparr>,
           \<lparr> cp_slug = ''0a0000000002'', cp_reviewUrl = ''https://g.page/r/ABC123/review'',
              cp_publicUrl = ''/p/0a0000000002'' \<rparr>,
           \<lparr> cp_slug = ''0a0000000003'', cp_reviewUrl = ''https://g.page/r/ABC123/review'',
              cp_publicUrl = ''/p/0a0000000003'' \<rparr>,
           \<lparr> cp_slug = ''0a0000000004'', cp_reviewUrl = ''https://g.page/r/ABC123/review'',
              cp_publicUrl = ''/p/0a0000000004'' \<rparr>]"
  let ?boom = "Some (Error ''socket hang up'')"
  have fresh: "fresh_run example_world (length (all_keys ''1001'' ?gs))"
    by code_simp
  have res: "fst ?run = Next ?cr"
    by code_simp
  then have run: "?run = (Next ?cr, snd ?run)"
    by (metis prod.collapse)
  have three: "''1001'' @ ''|'' @ ''li_77'' @ ''|'' @ show_nat 3 = ''1001|li_77|3''"
    by code_simp
  have disj: "set (all_keys ''1001'' ?gs) \<inter> stored_keys example_world = {}"
    by code_simp
  have len: "length (filter (\<lambda>p. pl_order p = 2) (plates (snd ?run))) \<le> 500"
    by code_simp
  have nf: "no_fault_next ((snd ?run)\<lparr> faults := [None, ?boom] \<rparr>)"
    by (simp add: no_fault_next_def)
  note inst = plate_generation_idempotent[OF fresh run]
  from inst[THEN conjunct1] have "\<forall>g \<in> set ?gs. \<forall>i < nat (units g).
        ''1001'' @ ''|'' @ lineItemId g @ ''|'' @ show_nat i \<in> stored_keys (snd ?run)" .
  then have "''1001'' @ ''|'' @ ''li_77'' @ ''|'' @ show_nat 3 \<in> stored_keys (snd ?run)"
    by simp
  then have key: "''1001|li_77|3'' \<in> stored_keys (snd ?run)"
    by (simp only: three)
  from inst[THEN conjunct2, THEN conjunct2, THEN conjunct2, THEN conjunct1]
  have again: "plates (snd (generate_plates (example_platform example_item Some) None ''1001'' 2 ?gs
       ((snd ?run)\<lparr> faults := [?boom], slugs := [] \<rparr>))) = plates (snd ?run)"
    by (rule allE, elim allE)
  from inst[THEN conjunct2, THEN conjunct2, THEN conjunct2, THEN conjunct2, THEN conjunct1,
      rule_format, OF conjI[OF disj len] nf, of "[]"]
  have skip: "generate_plates (example_platform example_item Some) None ''1001'' 2 ?gs
       ((snd ?run)\<lparr> faults := [None, ?boom], slugs := [] \<rparr>) =
     (Next [], (snd ?run)\<lparr> faults := [?boom], slugs := [] \<rparr>)"
    by simp
  show ?thesis
    by (intro conjI) (fact fresh res key again disj len skip)+
qed

text \<open>
  C1 as the specification states it has every creation error other than a uniqueness
  violation fatal, and a plate for every unit index. On the scenario order, let the
  creation for unit 1 fail with an error that is no uniqueness violation (nothing is
  stored under its key or its slug) but whose message contains "unique": the error is
  swallowed, the step ends normally with three plates created, and unit 1 has none.
\<close>

theorem plate_generation_swallow_counterexample:
  "fst (generate_plates (example_platform example_item Some) None ''1001'' 2
          [\<lparr> reviewUrl = ''https://g.page/r/ABC123/review'', units = 4, lineItemId = ''li_77'' \<rparr>]
          (example_world\<lparr> faults := [None, None,
             Some (Error ''there is no unique or exclusion constraint matching the ON CONFLICT specification'')] \<rparr>)) =
     Next [\<lparr> cp_slug = ''0a0000000001'', cp_reviewUrl = ''https://g.page/r/ABC123/review'',
              cp_publicUrl = ''/p/0a0000000001'' \<rparr>,
           \<lparr> cp_slug = ''0a0000000003'', cp_reviewUrl = ''https://g.page/r/ABC123/review'',
              cp_publicUrl = ''/p/0a0000000003'' \<rparr>,
           \<lparr> cp_slug = ''0a0000000004'', cp_reviewUrl = ''https://g.page/r/ABC123/review'',
              cp_publicUrl = ''/p/0a0000000004'' \<rparr>] \<and>
   map sourceKey (plates (snd (generate_plates (example_platform example_item Some) None ''1001'' 2
          [\<lparr> reviewUrl = ''https://g.page/r/ABC123/review'', units = 4, lineItemId = ''li_77'' \<rparr>]
          (example_world\<lparr> faults := [None, None,
             Some (Error ''there is no unique or exclusion constraint matching the ON CONFLICT specification'')] \<rparr>)))) =
     [''1001|li_77|0'', ''1001|li_77|2'', ''1001|li_77|3'']"
  by code_simp

text \<open>A slug drawn twice: the storage rejects the second plate for its slug, the error is
  swallowed as a duplicate, and the unit is left without a plate.\<close>

lemma slug_collision_run:
  "fst (generate_plates (example_platform example_item Some) None ''1001'' 2
          [\<lparr> reviewUrl = ''https://g.page/r/ABC123/review'', units = 4, lineItemId = ''li_77'' \<rparr>]
          (example_world\<lparr> slugs := [''0a0000000001'', ''0a0000000001'', ''0a0000000003'', ''0a0000000004''] \<rparr>)) =
     Next [\<lparr> cp_slug = ''0a0000000001'', cp_reviewUrl = ''https://g.page/r/ABC123/review'',
              cp_publicUrl = ''/p/0a0000000001'' \<rparr>,
           \<lparr> cp_slug = ''0a0000000003'', cp_reviewUrl = ''https://g.page/r/ABC123/review'',
              cp_publicUrl = ''/p/0a0000000003'' \<rparr>,
           \<lparr> cp_slug = ''0a0000000004'', cp_reviewUrl = ''https://g.page/r/ABC123/review'',
              cp_publicUrl = ''/p/0a0000000004'' \<rparr>]"
  "map sourceKey (plates (snd (generate_plates (example_platform example_item Some) None ''1001'' 2
          [\<lparr> reviewUrl = ''https://g.page/r/ABC123/review'', units = 4, lineItemId = ''li_77'' \<rparr>]
          (example_world\<lparr> slugs := [''0a0000000001'', ''0a0000000001'', ''0a0000000003'', ''0a0000000004''] \<rparr>)))) =
     [''1001|li_77|0'', ''1001|li_77|2'', ''1001|li_77|3'']"
  by code_simp+

text \<open>A creation failure that is not classified as a duplicate: the step throws it, with
  the plate of unit 0 stored and the others not attempted.\<close>

lemma creation_failure_fatal_run:
  "generate_plates (example_platform example_item Some) None ''1001'' 2
          [\<lparr> reviewUrl = ''https://g.page/r/ABC123/review'', units = 4, lineItemId = ''li_77'' \<rparr>]
          (example_world\<lparr> faults := [None, None, Some (Error ''socket hang up'')] \<rparr>) =
     (Throw (Error ''socket hang up''),
      example_world\<lparr> plates := [\<lparr> pl_id = 1, slug = ''0a0000000001'', pl_order = 2,
                                   googleReviewUrl = ''https://g.page/r/ABC123/review'',
                                   pl_status = ''activated'', sourceKey = ''1001|li_77|0'',
                                   activatedAt = ''2026-01-01T00:00:00.000Z'' \<rparr>],
                      next_id := 1,
                      slugs := [''0a0000000003'', ''0a0000000004'', ''0a0000000005'', ''0a0000000006''] \<rparr>)"
  by code_simp

section \<open>The scenario, end to end\<close>

text \<open>The stages of the handler on the scenario, evaluated.\<close>

lemma example_groups:
  "extractGroups (example_body example_item) =
     Inr [\<lparr> reviewUrl = ''https://g.page/r/ABC123/review'', units = 4, lineItemId = ''li_77'' \<rparr>]"
  by code_simp

lemma example_gates: "gates (example_platform item N) example_request = Inr ''wh_1''"
  by (simp add: gates_def example_platform_def example_request_def getShopifyHeader_def nonempty_def)

lemma example_keys:
  "sourceKey_of ''1001'' ''li_77'' 0 = ''1001|li_77|0''"
  "sourceKey_of ''1001'' ''li_77'' (Suc 0) = ''1001|li_77|1''"
  "sourceKey_of ''1001'' ''li_77'' 2 = ''1001|li_77|2''"
  "sourceKey_of ''1001'' ''li_77'' 3 = ''1001|li_77|3''"
  by code_simp+

lemma upt_4: "[0 ..< (4::nat)] = [0, Suc 0, 2, 3]"
  by code_simp

lemma example_platform_sel:
  "JSON_parse (example_platform item N) raw = Some (example_body item)"
  "normalizeGoogleReviewLinkStrict (example_platform item N) = N"
  "now_iso (example_platform item N) = ''2026-01-01T00:00:00.000Z''"
  "PLATES_NOTIFICATION_EMAIL (example_platform item N) = None"
  by (simp_all add: example_platform_def)

lemma example_body_sel:
  "body_orderNumber (example_body item) = ''1001''"
  "body_customerEmail (example_body item) = ''client@example.com''"
  by (simp_all add: example_body_def body_orderNumber_def body_customerEmail_def String_of_def)

lemma scenario_run:
  assumes N: "N ''https://g.page/r/ABC123/review'' = Some u" "u \<noteq> []"
  shows "handler (example_platform example_item N) example_request example_world =
    (Response 200,
     example_world
       \<lparr> events := [\<lparr> ev_id = 1, ev_provider = ''shopify'', ev_webhookId = ''wh_1'',
                      ev_topic = ''orders/paid'', ev_orderNumber = Some ''1001'',
                      ev_status = processed, ev_error = None \<rparr>],
         orders := [\<lparr> ord_id = 2, orderNumber = ''1001'', customerEmail = ''client@example.com'',
                      ord_status = ''paid'', ord_plates = [3, 4, 5, 6], activated = True \<rparr>],
         plates := [\<lparr> pl_id = 3, slug = ''0a0000000001'', pl_order = 2, googleReviewUrl = u,
                      pl_status = ''activated'', sourceKey = ''1001|li_77|0'',
                      activatedAt = ''2026-01-01T00:00:00.000Z'' \<rparr>,
                    \<lparr> pl_id = 4, slug = ''0a0000000002'', pl_order = 2, googleReviewUrl = u,
                      pl_status = ''activated'', sourceKey = ''1001|li_77|1'',
                      activatedAt = ''2026-01-01T00:00:00.000Z'' \<rparr>,
                    \<lparr> pl_id = 5, slug = ''0a0000000003'', pl_order = 2, googleReviewUrl = u,
                      pl_status = ''activated'', sourceKey = ''1001|li_77|2'',
                      activatedAt = ''2026-01-01T00:00:00.000Z'' \<rparr>,
                    \<lparr> pl_id = 6, slug = ''0a0000000004'', pl_order = 2, googleReviewUrl = u,
                      pl_status = ''activated'', sourceKey = ''1001|li_77|3'',
                      activatedAt = ''2026-01-01T00:00:00.000Z'' \<rparr>],
         next_id := 6, slugs := [''0a0000000005'', ''0a0000000006''],
         event_writes := [(1, processed_data ''1001'' 4)] \<rparr>)"
proof -
  let ?pf = "example_platform example_item N"
  let ?g = "\<lparr> reviewUrl = ''https://g.page/r/ABC123/review'', units = 4, lineItemId = ''li_77'' \<rparr>"
  let ?ev = "\<lparr> ev_id = 1, ev_provider = ''shopify'', ev_webhookId = ''wh_1'',
               ev_topic = ''orders/paid'', ev_orderNumber = None, ev_status = received,
               ev_error = None \<rparr>"
  let ?W1 = "example_world\<lparr> events := [?ev], next_id := 1 \<rparr>"
  have reg: "create_event ''wh_1'' ''orders/paid'' example_world = (Inr 1, ?W1)"
    by (simp add: create_event_def take_fault_def example_world_def)
  have proc: "process_event ?pf example_request (Some 1) ?W1
      = fulfil ?pf (Some 1) ''1001'' ''client@example.com'' [?g] ?W1"
    by (simp add: process_event_def example_platform_sel example_groups example_body_sel Let_def)
  let ?ord = "\<lparr> ord_id = 2, orderNumber = ''1001'', customerEmail = ''client@example.com'',
                ord_status = ''paid'', ord_plates = [], activated = False \<rparr>"
  let ?W2 = "?W1\<lparr> orders := [?ord], next_id := 2 \<rparr>"
  have ups: "upsert_order ''1001'' ''client@example.com'' ?W1 = (Inr 2, ?W2)"
    by (simp add: upsert_order_def find_orders_def take_fault_def create_order_def example_world_def)
  let ?pl = "\<lambda>i sl k. \<lparr> pl_id = i, slug = sl, pl_order = 2, googleReviewUrl = u,
      pl_status = ''activated'', sourceKey = k, activatedAt = ''2026-01-01T00:00:00.000Z'' \<rparr>"
  let ?cp = "\<lambda>sl. \<lparr> cp_slug = sl, cp_reviewUrl = u, cp_publicUrl = ''/p/'' @ sl \<rparr>"
  let ?cr = "[?cp ''0a0000000001'', ?cp ''0a0000000002'', ?cp ''0a0000000003'', ?cp ''0a0000000004'']"
  let ?W3 = "?W2\<lparr> plates := [?pl 3 ''0a0000000001'' ''1001|li_77|0'', ?pl 4 ''0a0000000002'' ''1001|li_77|1'',
      ?pl 5 ''0a0000000003'' ''1001|li_77|2'', ?pl 6 ''0a0000000004'' ''1001|li_77|3''],
      next_id := 6, slugs := [''0a0000000005'', ''0a0000000006''] \<rparr>"
  have gen: "generate_plates ?pf (Some 1) ''1001'' 2 [?g] ?W2 = (Next ?cr, ?W3)"
    using N
    by (simp add: generate_plates_def find_plates_def take_fault_def example_world_def
        example_platform_sel nonempty_def upt_4 example_keys draw_slug_def create_plate_def Let_def)
  let ?W4 = "?W3\<lparr> orders := [?ord\<lparr> activated := True, ord_plates := [3, 4, 5, 6] \<rparr>],
      events := [?ev\<lparr> ev_status := processed, ev_orderNumber := Some ''1001'' \<rparr>],
      event_writes := [(1, processed_data ''1001'' 4)] \<rparr>"
  have fin: "finalize ?pf (Some 1) ''1001'' 2 ?cr ?W3 = (Response 200, ?W4)"
    by (simp add: finalize_def find_plates_def take_fault_def example_world_def update_order_def
        markEvent_def apply_event_data_def processed_data_def notify_def example_platform_sel nonempty_def)
  have "handler ?pf example_request example_world = process_event ?pf example_request (Some 1) ?W1"
    by (simp only: handler_def example_gates reg sum.case prod.case)
  also have "\<dots> = fulfil ?pf (Some 1) ''1001'' ''client@example.com'' [?g] ?W1"
    by (rule proc)
  also have "\<dots> = finalize ?pf (Some 1) ''1001'' 2 ?cr ?W3"
    by (simp only: fulfil_def ups gen sum.case prod.case flow.case)
  also have "\<dots> = (Response 200, ?W4)"
    by (rule fin)
  finally show ?thesis by (simp add: example_world_def)
qed

text \<open>
  C5, as amended. End-to-end scenario: the event for order "1001" with one line item
  (destination property, quantity 2, variant label "2 Plaques", line id "li_77") gives the
  handled status, exactly one order "1001" with \<open>activated\<close> set, and exactly four plates
  (units = 2 x 2), under the source keys "1001|li_77|0" to "1001|li_77|3", every one pointing
  to the validated destination and to the order.
\<close>

theorem end_to_end_scenario:
  assumes "N ''https://g.page/r/ABC123/review'' = Some u" "u \<noteq> []"
  shows "fst (handler (example_platform example_item N) example_request example_world) = Response 200 \<and>
    orders (snd (handler (example_platform example_item N) example_request example_world)) =
      [\<lparr> ord_id = 2, orderNumber = ''1001'', customerEmail = ''client@example.com'',
         ord_status = ''paid'', ord_plates = [3, 4, 5, 6], activated = True \<rparr>] \<and>
    map sourceKey (plates (snd (handler (example_platform example_item N) example_request example_world))) =
      [''1001|li_77|0'', ''1001|li_77|1'', ''1001|li_77|2'', ''1001|li_77|3''] \<and>
    map googleReviewUrl (plates (snd (handler (example_platform example_item N) example_request example_world))) =
      [u, u, u, u] \<and>
    map pl_order (plates (snd (handler (example_platform example_item N) example_request example_world))) =
      [2, 2, 2, 2] \<and>
    map pl_id (plates (snd (handler (example_platform example_item N) example_request example_world))) =
      [3, 4, 5, 6]"
  using scenario_run[of N u] assms by simp

theorem end_to_end_scenario_witness:
  "fst (handler (example_platform example_item Some) example_request example_world) = Response 200 \<and>
   map sourceKey (plates (snd (handler (example_platform example_item Some) example_request example_world))) =
      [''1001|li_77|0'', ''1001|li_77|1'', ''1001|li_77|2'', ''1001|li_77|3''] \<and>
   map googleReviewUrl (plates (snd (handler (example_platform example_item Some) example_request example_world))) =
      [''https://g.page/r/ABC123/review'', ''https://g.page/r/ABC123/review'',
       ''https://g.page/r/ABC123/review'', ''https://g.page/r/ABC123/review'']"
  using end_to_end_scenario[of Some "''https://g.page/r/ABC123/review''"]
  by simp

text \<open>C5 as the specification states it asks for two plates; the scenario gives four.\<close>

theorem end_to_end_two_plates_counterexample:
  "map sourceKey (plates (snd (handler (example_platform example_item Some) example_request example_world)))
     \<noteq> [''1001|li_77|0'', ''1001|li_77|1''] \<and>
   length (plates (snd (handler (example_platform example_item Some) example_request example_world))) = 4"
  by code_simp

section \<open>Units and quantity\<close>

lemma extract_item_units:
  assumes "extract_item item = Inr (Some g)"
  shows "\<exists>p. getPackSize item = Some p \<and> p \<in> {1, 2, 5} \<and> units g = item_quantity item * p"
proof -
  from assms obtain p where p: "getPackSize item = Some p" and u: "units g = item_quantity item * p"
    by (auto simp: extract_item_def Let_def split: option.splits if_splits)
  from getPackSize_Some[OF p] p u show ?thesis by blast
qed

lemma extract_item_unresolved:
  assumes "relevant item" "getPackSize item = None"
  shows "extract_item item = Inl (Error ''NO PACK SIZE'')"
  using assms by (auto simp: extract_item_def relevant_def Let_def split: option.splits)

lemma group_keys_6:
  assumes "units g = 6"
  shows "group_keys number g =
     [number @ ''|'' @ lineItemId g @ ''|0'', number @ ''|'' @ lineItemId g @ ''|1'',
      number @ ''|'' @ lineItemId g @ ''|2'', number @ ''|'' @ lineItemId g @ ''|3'',
      number @ ''|'' @ lineItemId g @ ''|4'', number @ ''|'' @ lineItemId g @ ''|5'']"
proof -
  have idx: "[0 ..< nat 6] = [0, 1, 2, 3, 4, 5]" by code_simp
  have digits: "show_nat 0 = ''0''" "show_nat (Suc 0) = ''1''" "show_nat 2 = ''2''" "show_nat 3 = ''3''"
    "show_nat 4 = ''4''" "show_nat 5 = ''5''"
    by code_simp+
  show ?thesis
    unfolding group_keys_def assms idx by (simp add: sourceKey_of_def digits)
qed

lemma three_pairs_item:
  "extract_item (example_item\<lparr> quantity := Some (Fin 3) \<rparr>) =
     Inr (Some \<lparr> reviewUrl = ''https://g.page/r/ABC123/review'', units = 6, lineItemId = ''li_77'' \<rparr>)"
  "getPackSize (example_item\<lparr> quantity := Some (Fin 3) \<rparr>) = Some 2"
  "item_quantity (example_item\<lparr> quantity := Some (Fin 3) \<rparr>) = 3"
  by code_simp+

lemma three_pairs_rows:
  "map sourceKey (plates (snd (handler
       (example_platform (example_item\<lparr> quantity := Some (Fin 3) \<rparr>) Some) example_request example_world))) =
     [''1001|li_77|0'', ''1001|li_77|1'', ''1001|li_77|2'', ''1001|li_77|3'', ''1001|li_77|4'',
      ''1001|li_77|5'']"
  by code_simp

text \<open>
  C4. Units computation: a relevant line that yields a group has a pack size resolved to
  1, 2 or 5, and the group's units are quantity times pack size; a relevant line whose
  pack size does not resolve yields no group with a default but the "NO PACK SIZE" throw.
  With quantity 3 and pack size 2 the units are 6, the keys of the group are those of the
  unit indices 0 to 5, and the handler stores exactly these six plates for the line.
\<close>

theorem units_computation:
  "(extract_item item = Inr (Some g) \<longrightarrow>
      (\<exists>p. getPackSize item = Some p \<and> p \<in> {1, 2, 5} \<and> units g = item_quantity item * p)) \<and>
   (relevant item \<and> getPackSize item = None \<longrightarrow> extract_item item = Inl (Error ''NO PACK SIZE'')) \<and>
   (extract_item item = Inr (Some g) \<and> item_quantity item = 3 \<and> getPackSize item = Some 2 \<longrightarrow>
      units g = 6 \<and>
      group_keys number g =
        [number @ ''|'' @ lineItemId g @ ''|0'', number @ ''|'' @ lineItemId g @ ''|1'',
         number @ ''|'' @ lineItemId g @ ''|2'', number @ ''|'' @ lineItemId g @ ''|3'',
         number @ ''|'' @ lineItemId g @ ''|4'', number @ ''|'' @ lineItemId g @ ''|5'']) \<and>
   extract_item (example_item\<lparr> quantity := Some (Fin 3) \<rparr>) =
     Inr (Some \<lparr> reviewUrl = ''https://g.page/r/ABC123/review'', units = 6, lineItemId = ''li_77'' \<rparr>) \<and>
   map sourceKey (plates (snd (handler
       (example_platform (example_item\<lparr> quantity := Some (Fin 3) \<rparr>) Some) example_request example_world))) =
     [''1001|li_77|0'', ''1001|li_77|1'', ''1001|li_77|2'', ''1001|li_77|3'', ''1001|li_77|4'',
      ''1001|li_77|5'']"
proof (intro conjI impI)
  assume "extract_item item = Inr (Some g)"
  then show "\<exists>p. getPackSize item = Some p \<and> p \<in> {1, 2, 5} \<and> units g = item_quantity item * p"
    by (rule extract_item_units)
next
  assume "relevant item \<and> getPackSize item = None"
  then show "extract_item item = Inl (Error ''NO PACK SIZE'')"
    using extract_item_unresolved by blast
next
  assume a: "extract_item item = Inr (Some g) \<and> item_quantity item = 3 \<and> getPackSize item = Some 2"
  with extract_item_units[of item g] show six: "units g = 6" by auto
  then show "group_keys number g =
        [number @ ''|'' @ lineItemId g @ ''|0'', number @ ''|'' @ lineItemId g @ ''|1'',
         number @ ''|'' @ lineItemId g @ ''|2'', number @ ''|'' @ lineItemId g @ ''|3'',
         number @ ''|'' @ lineItemId g @ ''|4'', number @ ''|'' @ lineItemId g @ ''|5'']"
    by (rule group_keys_6)
qed (rule three_pairs_item three_pairs_rows)+

theorem units_computation_witness:
  "extract_item (example_item\<lparr> quantity := Some (Fin 3) \<rparr>) =
     Inr (Some \<lparr> reviewUrl = ''https://g.page/r/ABC123/review'', units = 6, lineItemId = ''li_77'' \<rparr>) \<and>
   item_quantity (example_item\<lparr> quantity := Some (Fin 3) \<rparr>) = 3 \<and>
   getPackSize (example_item\<lparr> quantity := Some (Fin 3) \<rparr>) = Some 2 \<and>
   group_keys ''1001'' \<lparr> reviewUrl = ''https://g.page/r/ABC123/review'', units = 6, lineItemId = ''li_77'' \<rparr> =
     [''1001|li_77|0'', ''1001|li_77|1'', ''1001|li_77|2'', ''1001|li_77|3'', ''1001|li_77|4'',
      ''1001|li_77|5'']"
  using units_computation[of "example_item\<lparr> quantity := Some (Fin 3) \<rparr>"
      "\<lparr> reviewUrl = ''https://g.page/r/ABC123/review'', units = 6, lineItemId = ''li_77'' \<rparr>" "''1001''"]
    three_pairs_item
  by simp

text \<open>
  C8, as amended. Quantity derivation: the quantity is the entry's \<open>quantity\<close> field when
  that field is present and a positive finite number; \<open>current_quantity\<close> is consulted only
  when \<open>quantity\<close> is absent or null, and is used when it is a positive finite number; in
  every other case the quantity is 1. So a line with quantity 0 gets 1, whatever its
  alternate quantity. The units of the extracted group use this quantity.
\<close>

theorem quantity_derivation:
  "(quantity item = Some (Fin q) \<and> 0 < q \<longrightarrow> item_quantity item = q) \<and>
   (quantity item = None \<and> current_quantity item = Some (Fin q) \<and> 0 < q \<longrightarrow> item_quantity item = q) \<and>
   (quantity item = Some v \<and> (\<forall>k. v = Fin k \<longrightarrow> k \<le> 0) \<longrightarrow> item_quantity item = 1) \<and>
   (quantity item = None \<and> (\<forall>k. current_quantity item = Some (Fin k) \<longrightarrow> k \<le> 0) \<longrightarrow>
      item_quantity item = 1) \<and>
   (extract_item item = Inr (Some g) \<longrightarrow>
      (\<exists>p. getPackSize item = Some p \<and> units g = item_quantity item * p))"
proof (intro conjI impI)
  assume "extract_item item = Inr (Some g)"
  then show "\<exists>p. getPackSize item = Some p \<and> units g = item_quantity item * p"
    using extract_item_units by blast
qed (auto simp: item_quantity_def quantityRaw_def split: option.splits jsnum.splits)

theorem quantity_derivation_witness:
  "quantity (example_item\<lparr> quantity := Some (Fin 0), current_quantity := Some (Fin 3) \<rparr>) = Some (Fin 0) \<and>
   item_quantity (example_item\<lparr> quantity := Some (Fin 0), current_quantity := Some (Fin 3) \<rparr>) = 1 \<and>
   item_quantity (example_item\<lparr> quantity := None, current_quantity := Some (Fin 3) \<rparr>) = 3"
  using quantity_derivation[of "example_item\<lparr> quantity := Some (Fin 0), current_quantity := Some (Fin 3) \<rparr>" 0
      "Fin 0"]
    quantity_derivation[of "example_item\<lparr> quantity := None, current_quantity := Some (Fin 3) \<rparr>" 3]
  by simp

text \<open>C8 as the specification states it has quantity 0 with alternate quantity 3 give 3;
  the code gives 1,
  and two units for the "2 Plaques" line instead of six.\<close>

theorem quantity_zero_counterexample:
  "item_quantity (example_item\<lparr> quantity := Some (Fin 0), current_quantity := Some (Fin 3) \<rparr>) = 1 \<and>
   item_quantity (example_item\<lparr> quantity := Some (Fin 0), current_quantity := Some (Fin 3) \<rparr>) \<noteq> 3 \<and>
   extract_item (example_item\<lparr> quantity := Some (Fin 0), current_quantity := Some (Fin 3) \<rparr>) =
     Inr (Some \<lparr> reviewUrl = ''https://g.page/r/ABC123/review'', units = 2, lineItemId = ''li_77'' \<rparr>)"
  by code_simp

section \<open>Replay suppression\<close>

lemma same_deliveries_refl: "same_deliveries w w"
  by (simp add: same_deliveries_def)

lemma same_deliveries_trans: "same_deliveries w w1 \<Longrightarrow> same_deliveries w1 w2 \<Longrightarrow> same_deliveries w w2"
  by (simp add: same_deliveries_def)

lemma take_fault_same: "take_fault w = (f, w') \<Longrightarrow> same_deliveries w w'"
  by (auto simp: take_fault_def same_deliveries_def delivery_ids_def split: list.splits)

lemma markEvent_same: "same_deliveries w (markEvent ev d w)"
  by (auto simp: markEvent_def take_fault_def same_deliveries_def delivery_ids_def apply_event_data_def
      split: option.splits list.splits)

lemma find_orders_same: "find_orders n w = (r, w') \<Longrightarrow> same_deliveries w w'"
  by (auto simp: find_orders_def take_fault_def same_deliveries_def delivery_ids_def
      split: option.splits list.splits)

lemma update_order_same: "update_order oid f w = (r, w') \<Longrightarrow> same_deliveries w w'"
  by (auto simp: update_order_def take_fault_def same_deliveries_def delivery_ids_def
      split: option.splits list.splits)

lemma create_order_same: "create_order n m w = (r, w') \<Longrightarrow> same_deliveries w w'"
  by (auto simp: create_order_def take_fault_def same_deliveries_def delivery_ids_def
      split: option.splits list.splits if_splits)

lemma upsert_order_same: "upsert_order n m w = (r, w') \<Longrightarrow> same_deliveries w w'"
  by (auto simp: upsert_order_def split: prod.splits sum.splits list.splits
      dest!: find_orders_same create_order_same update_order_same intro: same_deliveries_trans)

lemma find_plates_same: "find_plates oid w = (r, w') \<Longrightarrow> same_deliveries w w'"
  by (auto simp: find_plates_def take_fault_def same_deliveries_def delivery_ids_def
      split: option.splits list.splits)

lemma draw_slug_same: "draw_slug w = (sl, w') \<Longrightarrow> same_deliveries w w'"
  by (auto simp: draw_slug_def same_deliveries_def delivery_ids_def split: list.splits)

lemma create_plate_same: "create_plate sl oid k u a w = (r, w') \<Longrightarrow> same_deliveries w w'"
  by (auto simp: create_plate_def take_fault_def same_deliveries_def delivery_ids_def
      split: option.splits list.splits if_splits)

lemma sendEmail_same: "same_deliveries w (sendEmail m w)"
  by (auto simp: sendEmail_def take_fault_def same_deliveries_def delivery_ids_def
      split: option.splits list.splits)

lemma notify_same: "same_deliveries w (notify pf n cr w)"
  by (auto simp: notify_def sendEmail_same same_deliveries_refl split: option.splits)

lemma unit_loop_same:
  "unit_loop pf number oid lid url idxs ex cr w = (r, w') \<Longrightarrow> same_deliveries w w'"
proof (induction idxs arbitrary: ex cr w)
  case Nil
  then show ?case by (simp add: same_deliveries_refl)
next
  case (Cons i rest)
  show ?case
  proof (cases "sourceKey_of number lid i \<in> ex")
    case True
    with Cons show ?thesis by simp
  next
    case False
    obtain sl w1 where d: "draw_slug w = (sl, w1)" by (cases "draw_slug w")
    obtain c w2 where c: "create_plate sl oid (sourceKey_of number lid i) url (now_iso pf) w1 = (c, w2)"
      by (cases "create_plate sl oid (sourceKey_of number lid i) url (now_iso pf) w1")
    have s2: "same_deliveries w w2"
      using draw_slug_same[OF d] create_plate_same[OF c] by (rule same_deliveries_trans)
    show ?thesis
    proof (cases c)
      case (Inr j)
      with Cons.prems False d c have
        "unit_loop pf number oid lid url rest (insert (sourceKey_of number lid i) ex)
           (cr @ [\<lparr> cp_slug = sl, cp_reviewUrl = url, cp_publicUrl = ''/p/'' @ sl \<rparr>]) w2 = (r, w')"
        by simp
      from Cons.IH[OF this] s2 show ?thesis by (rule same_deliveries_trans[rotated])
    next
      case (Inl err)
      show ?thesis
      proof (cases "isDuplicateKeyError err")
        case True
        with Cons.prems False d c Inl have "unit_loop pf number oid lid url rest ex cr w2 = (r, w')"
          by simp
        from Cons.IH[OF this] s2 show ?thesis by (rule same_deliveries_trans[rotated])
      next
        case nd: False
        with Cons.prems False d c Inl have "w' = w2" by simp
        with s2 show ?thesis by simp
      qed
    qed
  qed
qed

lemma group_loop_same:
  "group_loop pf ev number oid gs ex cr w = (r, w') \<Longrightarrow> same_deliveries w w'"
proof (induction gs arbitrary: ex cr w)
  case Nil
  then show ?case by (simp add: same_deliveries_refl)
next
  case (Cons g gs)
  show ?case
  proof (cases "lineItemId g = [] \<or> nonempty (normalizeGoogleReviewLinkStrict pf (reviewUrl g)) = None")
    case True
    with Cons.prems show ?thesis by (auto simp: markEvent_same split: if_splits)
  next
    case False
    then obtain url where url: "nonempty (normalizeGoogleReviewLinkStrict pf (reviewUrl g)) = Some url"
      and lid: "lineItemId g \<noteq> []" by auto
    obtain u w1 where u: "unit_loop pf number oid (lineItemId g) url [0 ..< nat (units g)] ex cr w = (u, w1)"
      by (cases "unit_loop pf number oid (lineItemId g) url [0 ..< nat (units g)] ex cr w")
    have s1: "same_deliveries w w1" using u by (rule unit_loop_same)
    show ?thesis
    proof (cases u)
      case (Inl e)
      with Cons.prems url lid u have "w' = w1" by simp
      with s1 show ?thesis by simp
    next
      case (Inr st)
      obtain ex1 cr1 where "st = (ex1, cr1)" by (cases st)
      with Cons.prems url lid u Inr have "group_loop pf ev number oid gs ex1 cr1 w1 = (r, w')" by simp
      from Cons.IH[OF this] s1 show ?thesis by (rule same_deliveries_trans[rotated])
    qed
  qed
qed

lemma generate_plates_same:
  assumes "generate_plates pf ev number oid gs w = (r, w')"
  shows "same_deliveries w w'"
proof -
  obtain f w1 where f: "find_plates oid w = (f, w1)" by (cases "find_plates oid w")
  have s1: "same_deliveries w w1" using f by (rule find_plates_same)
  show ?thesis
  proof (cases f)
    case (Inl e)
    with assms f have "w' = w1" by (simp add: generate_plates_def)
    with s1 show ?thesis by simp
  next
    case (Inr docs)
    obtain g w2 where g: "group_loop pf ev number oid gs
        (set (filter (\<lambda>k. k \<noteq> []) (map sourceKey docs))) [] w1 = (g, w2)"
      by (cases "group_loop pf ev number oid gs (set (filter (\<lambda>k. k \<noteq> []) (map sourceKey docs))) [] w1")
    with assms f Inr have "w' = w2"
      by (auto simp: generate_plates_def split: flow.splits)
    with group_loop_same[OF g] s1 show ?thesis by (auto intro: same_deliveries_trans)
  qed
qed

lemma finalize_same:
  assumes "finalize pf ev number oid cr w = (r, w')"
  shows "same_deliveries w w'"
proof -
  obtain f w1 where f: "find_plates oid w = (f, w1)" by (cases "find_plates oid w")
  have s1: "same_deliveries w w1" using f by (rule find_plates_same)
  show ?thesis
  proof (cases f)
    case (Inl e)
    with assms f have "w' = w1" by (simp add: finalize_def)
    with s1 show ?thesis by simp
  next
    case (Inr docs)
    obtain u w2 where u: "update_order oid (\<lambda>x. x\<lparr> activated := True, ord_plates := map pl_id docs \<rparr>) w1 = (u, w2)"
      by (cases "update_order oid (\<lambda>x. x\<lparr> activated := True, ord_plates := map pl_id docs \<rparr>) w1")
    have s2: "same_deliveries w w2" using s1 update_order_same[OF u] by (rule same_deliveries_trans)
    show ?thesis
    proof (cases u)
      case (Inl e)
      with assms f Inr u have "w' = w2" by (simp add: finalize_def)
      with s2 show ?thesis by simp
    next
      case (Inr j)
      with assms f \<open>f = Inr docs\<close> u have
        "w' = notify pf number cr (markEvent ev (processed_data number (length cr)) w2)"
        by (simp add: finalize_def)
      then show ?thesis
        using s2 markEvent_same notify_same by (blast intro: same_deliveries_trans)
    qed
  qed
qed

lemma fulfil_same:
  assumes "fulfil pf ev number mail gs w = (r, w')"
  shows "same_deliveries w w'"
proof -
  obtain u w1 where u: "upsert_order number mail w = (u, w1)" by (cases "upsert_order number mail w")
  have s1: "same_deliveries w w1" using u by (rule upsert_order_same)
  show ?thesis
  proof (cases u)
    case (Inl e)
    with assms u have "w' = w1" by (simp add: fulfil_def)
    with s1 show ?thesis by simp
  next
    case (Inr oid)
    obtain g w2 where g: "generate_plates pf ev number oid gs w1 = (g, w2)"
      by (cases "generate_plates pf ev number oid gs w1")
    have s2: "same_deliveries w w2" using s1 generate_plates_same[OF g] by (rule same_deliveries_trans)
    show ?thesis
    proof (cases g)
      case (Next cr)
      with assms u Inr g have "finalize pf ev number oid cr w2 = (r, w')" by (simp add: fulfil_def)
      from finalize_same[OF this] s2 show ?thesis by (rule same_deliveries_trans[rotated])
    next
      case (Return st)
      with assms u Inr g have "w' = w2" by (simp add: fulfil_def)
      with s2 show ?thesis by simp
    next
      case (Throw e)
      with assms u Inr g have "w' = w2" by (simp add: fulfil_def)
      with s2 show ?thesis by simp
    qed
  qed
qed

lemma process_event_same:
  assumes "process_event pf req ev w = (r, w')"
  shows "same_deliveries w w'"
  using assms
  by (auto simp: process_event_def Let_def markEvent_same same_deliveries_refl
      split: option.splits sum.splits if_splits dest: fulfil_same)

lemma take_fault_no_fault: "no_fault_next w \<Longrightarrow> take_fault w = (None, w\<lparr> faults := tl (faults w) \<rparr>)"
  by (cases "faults w") (auto simp: take_fault_def no_fault_next_def)

text \<open>Registration of a delivery id that is stored already.\<close>

lemma create_event_registered:
  assumes "no_fault_next w" "wid \<in> set (delivery_ids w)"
  shows "create_event wid topic w = (Inl (unique_error w), w\<lparr> faults := tl (faults w) \<rparr>)"
  using assms by (simp add: create_event_def take_fault_no_fault delivery_ids_def)

lemma create_event_ids:
  assumes "no_fault_next w" "create_event wid topic w = (r, w')"
  shows "wid \<in> set (delivery_ids w') \<and> unique_error w' = unique_error w"
  using assms
  by (auto simp: create_event_def take_fault_no_fault delivery_ids_def split: if_splits)

text \<open>After a submission whose registration insert reached the storage, the delivery id
  is stored.\<close>

lemma handler_registers:
  assumes "gates pf req = Inr wid" "handler pf req w0 = (r1, w1)" "no_fault_next w0"
  shows "wid \<in> set (delivery_ids w1) \<and> unique_error w1 = unique_error w0"
proof -
  obtain c wc where c: "create_event wid ''orders/paid'' w0 = (c, wc)"
    by (cases "create_event wid ''orders/paid'' w0")
  from create_event_ids[OF assms(3) c]
  have reg: "wid \<in> set (delivery_ids wc)" "unique_error wc = unique_error w0" by auto
  show ?thesis
  proof (cases c)
    case (Inl err)
    with assms(1,2) c have "w1 = wc" by (simp add: handler_def)
    with reg show ?thesis by simp
  next
    case (Inr i)
    with assms(1,2) c have "process_event pf req (Some i) wc = (r1, w1)" by (simp add: handler_def)
    then have "same_deliveries wc w1" by (rule process_event_same)
    with reg show ?thesis by (simp add: same_deliveries_def)
  qed
qed

text \<open>
  Replay suppression on a storage whose uniqueness error the classifier recognises: let
  a request pass the gates and be submitted once, its registration insert reaching the
  storage; whatever the first submission then did, a second submission of the same
  request, whose insert fails with the uniqueness violation (no other failure of the
  storage comes first), returns the handled status right after it, and leaves the
  deliveries, orders, plates, event updates and mails as they were: the world after it
  differs only by the consumed slot of the fault schedule.
\<close>

theorem replay_suppressed:
  assumes "gates pf req = Inr wid"
    and "handler pf req w0 = (r1, w1)"
    and "no_fault_next w0"
    and "isDuplicateKeyError (unique_error w0)"
    and "no_fault_next (w1\<lparr> faults := fs \<rparr>)"
  shows "wid \<in> set (delivery_ids w1) \<and>
         handler pf req (w1\<lparr> faults := fs \<rparr>) = (Response 200, w1\<lparr> faults := tl fs \<rparr>)"
proof -
  from handler_registers[OF assms(1,2,3)]
  have reg: "wid \<in> set (delivery_ids w1)" and ue: "unique_error w1 = unique_error w0" by auto
  have "wid \<in> set (delivery_ids (w1\<lparr> faults := fs \<rparr>))" using reg by (simp add: delivery_ids_def)
  from create_event_registered[OF assms(5) this, of "''orders/paid''"]
  have "create_event wid ''orders/paid'' (w1\<lparr> faults := fs \<rparr>) = (Inl (unique_error w1), w1\<lparr> faults := tl fs \<rparr>)"
    by simp
  then have "handler pf req (w1\<lparr> faults := fs \<rparr>) = (Response 200, w1\<lparr> faults := tl fs \<rparr>)"
    using assms(1,4) ue by (simp add: handler_def)
  with reg show ?thesis by simp
qed

theorem replay_suppressed_witness:
  "gates (example_platform example_item Some) example_request = Inr ''wh_1'' \<and>
   no_fault_next example_world \<and>
   isDuplicateKeyError (unique_error example_world) \<and>
   ''wh_1'' \<in> set (delivery_ids (snd (handler (example_platform example_item Some) example_request example_world))) \<and>
   handler (example_platform example_item Some) example_request
       ((snd (handler (example_platform example_item Some) example_request example_world))\<lparr> faults := [] \<rparr>) =
     (Response 200,
      (snd (handler (example_platform example_item Some) example_request example_world))\<lparr> faults := [] \<rparr>)"
proof -
  let ?pf = "example_platform example_item Some"
  let ?first = "handler ?pf example_request example_world"
  have g: "gates ?pf example_request = Inr ''wh_1''" by code_simp
  have n0: "no_fault_next example_world" by code_simp
  have d: "isDuplicateKeyError (unique_error example_world)" by code_simp
  have n1: "no_fault_next ((snd ?first)\<lparr> faults := [] \<rparr>)" by (simp add: no_fault_next_def)
  have run: "?first = (fst ?first, snd ?first)" by simp
  from replay_suppressed[OF g run n0 d n1] g n0 d show ?thesis by simp
qed

text \<open>
  C2, on the code. The scenario request submitted twice to a storage that reports a
  rejected unique index the way Payload does. The first submission is handled: 200, the
  delivery registered, four plates. In the error of the second registration insert the
  \<open>??\<close> chain of \<open>isDuplicateKeyError\<close> stops at \<open>err.message\<close>, which names the field and
  says nothing of uniqueness, so "Value must be unique" at \<open>data.errors[0].message\<close> is
  never read and the error is not classified as a duplicate: the second submission is
  answered 500, not 200. It stores nothing.
\<close>

theorem replay_unrecognised_run:
  "fst (handler (example_platform example_item Some) example_request
          (example_world\<lparr> unique_error := payload_unique_error \<rparr>)) = Response 200 \<and>
   delivery_ids (snd (handler (example_platform example_item Some) example_request
          (example_world\<lparr> unique_error := payload_unique_error \<rparr>))) = [''wh_1''] \<and>
   length (plates (snd (handler (example_platform example_item Some) example_request
          (example_world\<lparr> unique_error := payload_unique_error \<rparr>)))) = 4 \<and>
   error_text payload_unique_error = ''The following field is invalid: webhookId'' \<and>
   \<not> isDuplicateKeyError payload_unique_error \<and>
   handler (example_platform example_item Some) example_request
     (snd (handler (example_platform example_item Some) example_request
          (example_world\<lparr> unique_error := payload_unique_error \<rparr>))) =
     (Response 500,
      snd (handler (example_platform example_item Some) example_request
          (example_world\<lparr> unique_error := payload_unique_error \<rparr>)))"
  by code_simp

section \<open>Signature verification and the missing secret\<close>

lemma getShopifyHeader_nonempty: "getShopifyHeader req k = Some h \<Longrightarrow> nonempty (Some h) = Some h"
  by (auto simp: getShopifyHeader_def nonempty_def split: option.splits if_splits)

lemma checkShopifySignature_no_secret:
  assumes "nonempty (SHOPIFY_WEBHOOK_SECRET pf) = None" "nonempty hdr = Some h"
  shows "checkShopifySignature pf raw hdr = Inl (Error ''SHOPIFY_WEBHOOK_SECRET missing'')"
  using assms by (simp add: checkShopifySignature_def)

lemma checkShopifySignature_no_header:
  "checkShopifySignature pf raw None = Inr False"
  by (simp add: checkShopifySignature_def nonempty_def)

text \<open>
  C7, as amended. With signature verification enabled and the shared secret absent (or
  empty), a request that passes the topic and delivery-id gates and carries a signature
  header makes the signature check throw "SHOPIFY_WEBHOOK_SECRET missing", and the caller
  receives 500 and nothing is stored; a request without the signature header receives 401
  instead, because the check tests the header before it looks for the secret.
\<close>

theorem missing_secret_response:
  assumes "SHOPIFY_WEBHOOK_VERIFY_SIGNATURE pf \<noteq> Some ''false''"
    and "nonempty (SHOPIFY_WEBHOOK_SECRET pf) = None"
    and "getShopifyHeader req ''x-shopify-topic'' = Some ''orders/paid''"
    and "getShopifyHeader req ''x-shopify-webhook-id'' = Some wid"
  shows "(\<forall>h. getShopifyHeader req ''x-shopify-hmac-sha256'' = Some h \<longrightarrow>
            checkShopifySignature pf (rawBody req) (Some h) = Inl (Error ''SHOPIFY_WEBHOOK_SECRET missing'') \<and>
            handler pf req w = (Response 500, w)) \<and>
         (getShopifyHeader req ''x-shopify-hmac-sha256'' = None \<longrightarrow>
            handler pf req w = (Response 401, w))"
proof (intro conjI allI impI)
  fix h
  assume h: "getShopifyHeader req ''x-shopify-hmac-sha256'' = Some h"
  from checkShopifySignature_no_secret[OF assms(2) getShopifyHeader_nonempty[OF h]]
  show c: "checkShopifySignature pf (rawBody req) (Some h) = Inl (Error ''SHOPIFY_WEBHOOK_SECRET missing'')" .
  have "gates pf req = Inl 500"
    using assms(1,3,4) h c by (simp add: gates_def)
  then show "handler pf req w = (Response 500, w)" by (simp add: handler_def)
next
  assume h: "getShopifyHeader req ''x-shopify-hmac-sha256'' = None"
  have "gates pf req = Inl 401"
    using assms(1,3,4) h by (simp add: gates_def checkShopifySignature_no_header)
  then show "handler pf req w = (Response 401, w)" by (simp add: handler_def)
qed

theorem missing_secret_response_witness:
  "getShopifyHeader (example_request\<lparr> headers := (headers example_request)(''x-shopify-hmac-sha256'' \<mapsto> ''c2lnbmF0dXJl'') \<rparr>)
      ''x-shopify-hmac-sha256'' = Some ''c2lnbmF0dXJl'' \<and>
   handler ((example_platform example_item Some)\<lparr> SHOPIFY_WEBHOOK_VERIFY_SIGNATURE := None \<rparr>)
      (example_request\<lparr> headers := (headers example_request)(''x-shopify-hmac-sha256'' \<mapsto> ''c2lnbmF0dXJl'') \<rparr>)
      example_world = (Response 500, example_world)"
proof -
  let ?pf = "(example_platform example_item Some)\<lparr> SHOPIFY_WEBHOOK_VERIFY_SIGNATURE := None \<rparr>"
  let ?req = "example_request\<lparr> headers := (headers example_request)(''x-shopify-hmac-sha256'' \<mapsto> ''c2lnbmF0dXJl'') \<rparr>"
  have a: "SHOPIFY_WEBHOOK_VERIFY_SIGNATURE ?pf \<noteq> Some ''false''" by simp
  have b: "nonempty (SHOPIFY_WEBHOOK_SECRET ?pf) = None"
    by (simp add: example_platform_def nonempty_def)
  have c: "getShopifyHeader ?req ''x-shopify-topic'' = Some ''orders/paid''"
    by (simp add: example_request_def getShopifyHeader_def nonempty_def)
  have d: "getShopifyHeader ?req ''x-shopify-webhook-id'' = Some ''wh_1''"
    by (simp add: example_request_def getShopifyHeader_def nonempty_def)
  have e: "getShopifyHeader ?req ''x-shopify-hmac-sha256'' = Some ''c2lnbmF0dXJl''"
    by (simp add: example_request_def getShopifyHeader_def nonempty_def)
  from missing_secret_response[OF a b c d, of example_world] e show ?thesis by blast
qed

text \<open>C7 as the specification states it promises 500 and never 401: without a signature
  header the
  answer is 401, with verification enabled and no secret configured.\<close>

theorem missing_secret_401_counterexample:
  "SHOPIFY_WEBHOOK_VERIFY_SIGNATURE ((example_platform example_item Some)\<lparr> SHOPIFY_WEBHOOK_VERIFY_SIGNATURE := None \<rparr>)
     \<noteq> Some ''false'' \<and>
   SHOPIFY_WEBHOOK_SECRET ((example_platform example_item Some)\<lparr> SHOPIFY_WEBHOOK_VERIFY_SIGNATURE := None \<rparr>) = None \<and>
   handler ((example_platform example_item Some)\<lparr> SHOPIFY_WEBHOOK_VERIFY_SIGNATURE := None \<rparr>)
      example_request example_world = (Response 401, example_world)"
  by code_simp

section \<open>The duplicate-key classifier\<close>

lemma starts_with_iff: "starts_with s p \<longleftrightarrow> (\<exists>post. s = p @ post)"
  by (induction s p rule: starts_with.induct) auto

lemma str_includes_iff: "str_includes s p \<longleftrightarrow> (\<exists>pre post. s = pre @ p @ post)"
proof (induction s)
  case Nil
  then show ?case by simp
next
  case (Cons c cs)
  show ?case
  proof
    assume "str_includes (c # cs) p"
    then consider "starts_with (c # cs) p" | "str_includes cs p" by auto
    then show "\<exists>pre post. c # cs = pre @ p @ post"
    proof cases
      case 1
      then obtain post where "c # cs = [] @ p @ post" by (auto simp: starts_with_iff)
      then show ?thesis by blast
    next
      case 2
      with Cons.IH obtain pre post where "cs = pre @ p @ post" by blast
      then have "c # cs = (c # pre) @ p @ post" by simp
      then show ?thesis by blast
    qed
  next
    assume "\<exists>pre post. c # cs = pre @ p @ post"
    then obtain pre post where e: "c # cs = pre @ p @ post" by blast
    show "str_includes (c # cs) p"
    proof (cases pre)
      case Nil
      with e have "starts_with (c # cs) p" by (auto simp: starts_with_iff)
      then show ?thesis by simp
    next
      case (Cons d pre')
      with e have "cs = pre' @ p @ post" by simp
      with Cons.IH have "str_includes cs p" by blast
      then show ?thesis by simp
    qed
  qed
qed

lemma error_text_first:
  "error_text err =
     (case List.map_filter (\<lambda>m. m)
             [err_message err, err_data_message err, err_data_errors0_message err,
              err_errors0_message err] of
        [] \<Rightarrow> err_string err
      | m # _ \<Rightarrow> m)"
  by (simp add: error_text_def List.map_filter_def split: option.splits)

text \<open>
  C10. The duplicate-key classification is substring-based: \<open>isDuplicateKeyError\<close> holds
  exactly when the error's code is 11000 or the lower-cased text of its message contains
  "e11000", "duplicate", "unique", "already exists" or "has already been taken", the
  message being the first present of the four message fields, else the string of the
  error itself. So an insert failure that is no uniqueness violation (the storage holds no
  delivery at all) but whose message contains "unique" makes the registration step
  answer with the handled status and register nothing, where a failure without such a
  substring gives 500.
\<close>

theorem duplicate_key_classification:
  "(isDuplicateKeyError err \<longleftrightarrow>
      err_code err = Some 11000 \<or>
      (\<exists>needle \<in> set [''e11000'', ''duplicate'', ''unique'', ''already exists'', ''has already been taken''].
         contains_substring (toLowerCase (error_text err)) needle)) \<and>
   error_text err =
     (case List.map_filter (\<lambda>m. m)
             [err_message err, err_data_message err, err_data_errors0_message err,
              err_errors0_message err] of
        [] \<Rightarrow> err_string err
      | m # _ \<Rightarrow> m) \<and>
   events example_world = [] \<and>
   handler (example_platform example_item Some) example_request
       (example_world\<lparr> faults := [Some (Error ''getaddrinfo ENOTFOUND unique-cluster.internal'')] \<rparr>) =
     (Response 200, example_world) \<and>
   handler (example_platform example_item Some) example_request
       (example_world\<lparr> faults := [Some (Error ''socket hang up'')] \<rparr>) =
     (Response 500, example_world)"
proof (intro conjI)
  show "isDuplicateKeyError err \<longleftrightarrow>
      err_code err = Some 11000 \<or>
      (\<exists>needle \<in> set [''e11000'', ''duplicate'', ''unique'', ''already exists'', ''has already been taken''].
         contains_substring (toLowerCase (error_text err)) needle)"
    unfolding isDuplicateKeyError_def Let_def contains_substring_def[symmetric] str_includes_iff
    by (simp del: str_includes.simps)
next
  show "error_text err =
     (case List.map_filter (\<lambda>m. m)
             [err_message err, err_data_message err, err_data_errors0_message err,
              err_errors0_message err] of
        [] \<Rightarrow> err_string err
      | m # _ \<Rightarrow> m)"
    by (rule error_text_first)
next
  show "events example_world = []" by (simp add: example_world_def)
next
  show "handler (example_platform example_item Some) example_request
       (example_world\<lparr> faults := [Some (Error ''getaddrinfo ENOTFOUND unique-cluster.internal'')] \<rparr>) =
     (Response 200, example_world)"
    by code_simp
next
  show "handler (example_platform example_item Some) example_request
       (example_world\<lparr> faults := [Some (Error ''socket hang up'')] \<rparr>) =
     (Response 500, example_world)"
    by code_simp
qed

theorem duplicate_key_classification_witness:
  "isDuplicateKeyError mongo_duplicate \<and>
   isDuplicateKeyError (Error ''getaddrinfo ENOTFOUND unique-cluster.internal'') \<and>
   \<not> isDuplicateKeyError (Error ''socket hang up'')"
proof -
  have a: "err_code mongo_duplicate = Some 11000" by (simp add: mongo_duplicate_def)
  have b: "isDuplicateKeyError (Error ''getaddrinfo ENOTFOUND unique-cluster.internal'')" by code_simp
  have c: "\<not> isDuplicateKeyError (Error ''socket hang up'')" by code_simp
  from duplicate_key_classification[of mongo_duplicate] a b c show ?thesis by blast
qed

section \<open>An unresolved pack size in the handler\<close>

lemma extract_item_throw: "extract_item item = Inl e \<Longrightarrow> e = Error ''NO PACK SIZE''"
  by (auto simp: extract_item_def Let_def split: option.splits if_splits)

lemma extract_loop_unresolved:
  "\<exists>item \<in> set items. relevant item \<and> getPackSize item = None \<Longrightarrow>
     extract_loop items gs = Inl (Error ''NO PACK SIZE'')"
proof (induction items arbitrary: gs)
  case Nil
  then show ?case by simp
next
  case (Cons item items)
  show ?case
  proof (cases "extract_item item")
    case (Inl e)
    then show ?thesis using extract_item_throw by simp
  next
    case (Inr r)
    then have "\<not> (relevant item \<and> getPackSize item = None)"
      using extract_item_unresolved by fastforce
    with Cons.prems have "\<exists>item \<in> set items. relevant item \<and> getPackSize item = None" by auto
    from Cons.IH[OF this] Inr show ?thesis by (cases r) auto
  qed
qed

text \<open>What the handler does with such an event, once registered: the throw of the
  extraction leaves the handler, the delivery record stays as registered.\<close>

lemma handler_unresolved_pack_size:
  assumes "gates pf req = Inr wid"
    and "create_event wid ''orders/paid'' w = (Inr i, w1)"
    and "JSON_parse pf (rawBody req) = Some body"
    and "body_orderNumber body \<noteq> []" "body_customerEmail body \<noteq> []"
    and "line_items body = Some items"
    and "\<exists>item \<in> set items. relevant item \<and> getPackSize item = None"
  shows "handler pf req w = (Uncaught (Error ''NO PACK SIZE''), w1)"
proof -
  have "extractGroups body = Inl (Error ''NO PACK SIZE'')"
    using assms(6,7) by (simp add: extractGroups_def extract_loop_unresolved)
  then show ?thesis
    using assms(1-5) by (simp add: handler_def process_event_def Let_def)
qed

text \<open>
  C3, on the code. The scenario event with the variant label "10 Plaques" (a relevant
  line whose pack size does not resolve): the handler neither answers 200 nor marks the
  delivery failed; the "NO PACK SIZE" throw leaves it, the delivery record stays
  \<open>received\<close>, and no order and no plate is stored.
\<close>

theorem unresolved_pack_size_run:
  "relevant (example_item\<lparr> variant_title := Some ''10 Plaques'' \<rparr>) \<and>
   getPackSize (example_item\<lparr> variant_title := Some ''10 Plaques'' \<rparr>) = None \<and>
   handler (example_platform (example_item\<lparr> variant_title := Some ''10 Plaques'' \<rparr>) Some)
       example_request example_world =
     (Uncaught (Error ''NO PACK SIZE''),
      example_world\<lparr> events := [\<lparr> ev_id = 1, ev_provider = ''shopify'', ev_webhookId = ''wh_1'',
                                   ev_topic = ''orders/paid'', ev_orderNumber = None,
                                   ev_status = received, ev_error = None \<rparr>],
                      next_id := 1 \<rparr>)"
  by code_simp

section \<open>The write that finalizes a successful execution\<close>

text \<open>
  C9, on the code. The scenario, a fully successful execution: the delivery record is
  moved to \<open>processed\<close> with the order number, and the data of that update carries
  \<open>createdPlatesCount\<close> = 4; the collection declares no field of that name, so the record
  stored has none.
\<close>

theorem processed_write_fields:
  "fst (handler (example_platform example_item Some) example_request example_world) = Response 200 \<and>
   events (snd (handler (example_platform example_item Some) example_request example_world)) =
     [\<lparr> ev_id = 1, ev_provider = ''shopify'', ev_webhookId = ''wh_1'', ev_topic = ''orders/paid'',
        ev_orderNumber = Some ''1001'', ev_status = processed, ev_error = None \<rparr>] \<and>
   event_writes (snd (handler (example_platform example_item Some) example_request example_world)) =
     [(1, \<lparr> d_status = Some processed, d_orderNumber = Some ''1001'', d_error = None,
            d_createdPlatesCount = Some 4 \<rparr>)] \<and>
   data_keys \<lparr> d_status = Some processed, d_orderNumber = Some ''1001'', d_error = None,
               d_createdPlatesCount = Some 4 \<rparr> = [''status'', ''orderNumber'', ''createdPlatesCount''] \<and>
   ''orderNumber'' \<in> set WebhookEvents_fields \<and>
   ''createdPlatesCount'' \<notin> set WebhookEvents_fields"
  by code_simp

end
